theory Spec2Isabelle
  imports Main
begin

section \<open>Request values\<close>

text \<open>
  The routes read their inputs from \<^verbatim>\<open>req.body\<close>, \<^verbatim>\<open>req.query\<close> and
  \<^verbatim>\<open>req.params\<close>. A field is absent (\<^verbatim>\<open>undefined\<close>), \<^verbatim>\<open>null\<close>, a number or a
  string. Numbers are the integers a JSON body carries exactly (below \<open>2^53\<close> in
  absolute value); strings are lists of code units, of which the model covers the
  Latin-1 range. Booleans, arrays and objects are not modelled.
\<close>

datatype jsval = JUndefined | JNull | JNum int | JStr string

text \<open>JavaScript truthiness, as \<^verbatim>\<open>if (x)\<close> and \<^verbatim>\<open>!x\<close> read it.\<close>

fun truthy :: "jsval \<Rightarrow> bool" where
  "truthy JUndefined = False"
| "truthy JNull = False"
| "truthy (JNum n) = (n \<noteq> 0)"
| "truthy (JStr s) = (s \<noteq> [])"

text \<open>
  White space as \<^verbatim>\<open>String.prototype.trim\<close> and \<^verbatim>\<open>parseInt\<close> strip it: TAB, LF,
  VT, FF, CR, SP and NBSP among the code units below 256.
\<close>

definition isWhiteSpace :: "char \<Rightarrow> bool" where
  "isWhiteSpace c = (of_char c \<in> {9, 10, 11, 12, 13, 32, 160 :: nat})"

definition trim :: "string \<Rightarrow> string" where
  "trim s = rev (dropWhile isWhiteSpace (rev (dropWhile isWhiteSpace s)))"

definition isDigit :: "char \<Rightarrow> bool" where
  "isDigit c = (48 \<le> (of_char c :: nat) \<and> (of_char c :: nat) \<le> 57)"

definition digitVal :: "char \<Rightarrow> int" where
  "digitVal c = int (of_char c) - 48"

definition isHexDigit :: "char \<Rightarrow> bool" where
  "isHexDigit c = (isDigit c \<or> (65 \<le> (of_char c :: nat) \<and> (of_char c :: nat) \<le> 70)
     \<or> (97 \<le> (of_char c :: nat) \<and> (of_char c :: nat) \<le> 102))"

definition hexVal :: "char \<Rightarrow> int" where
  "hexVal c = (if isDigit c then digitVal c
               else if (of_char c :: nat) \<le> 70 then int (of_char c) - 55
               else int (of_char c) - 87)"

definition digitsValue :: "int \<Rightarrow> (char \<Rightarrow> int) \<Rightarrow> string \<Rightarrow> int" where
  "digitsValue radix val ds = foldl (\<lambda>a c. radix * a + val c) 0 ds"

text \<open>
  \<^verbatim>\<open>parseInt(string)\<close> without a radix: leading white space is skipped, one sign is
  read, a \<^verbatim>\<open>0x\<close> prefix selects radix 16, and the longest prefix of digits is the
  value; no digit at all gives \<^verbatim>\<open>NaN\<close>, here \<open>None\<close>.
\<close>

definition parseDigits :: "string \<Rightarrow> int option" where
  "parseDigits s =
     (case s of
        a # b # rest \<Rightarrow>
          (if a = CHR ''0'' \<and> (b = CHR ''x'' \<or> b = CHR ''X'')
           then (if takeWhile isHexDigit rest = [] then None
                 else Some (digitsValue 16 hexVal (takeWhile isHexDigit rest)))
           else (if takeWhile isDigit s = [] then None
                 else Some (digitsValue 10 digitVal (takeWhile isDigit s))))
      | _ \<Rightarrow> (if takeWhile isDigit s = [] then None
              else Some (digitsValue 10 digitVal (takeWhile isDigit s))))"

definition parseIntStr :: "string \<Rightarrow> int option" where
  "parseIntStr s =
     (case dropWhile isWhiteSpace s of
        [] \<Rightarrow> None
      | c # cs \<Rightarrow>
          (if c = CHR ''-'' then map_option uminus (parseDigits cs)
           else if c = CHR ''+'' then parseDigits cs
           else parseDigits (c # cs)))"

fun parseInt :: "jsval \<Rightarrow> int option" where
  "parseInt JUndefined = None"
| "parseInt JNull = None"
| "parseInt (JNum n) = Some n"
| "parseInt (JStr s) = parseIntStr s"

section \<open>The database\<close>

text \<open>
  The tables of \<^verbatim>\<open>schema.prisma\<close> that the folder, file and share routes read and
  write. Ids are the \<^verbatim>\<open>Int @id @default(autoincrement())\<close> columns; a table is the
  list of its rows in insertion order. The time stamps of folders and files are
  left out: no route modelled here reads them.
\<close>

record Folder =
  folder_id :: int
  folder_name :: string
  folder_ownerId :: int
  folder_parentId :: "int option"

record File =
  file_id :: int
  file_name :: string
  file_mimetype :: string
  file_size :: int
  file_cloudUrl :: string
  file_publicId :: string
  file_folderId :: "int option"
  file_ownerId :: int

text \<open>Times are milliseconds since the epoch, as \<^verbatim>\<open>Date\<close> holds them.\<close>

record ShareLink =
  link_id :: int
  link_token :: string
  link_folderId :: int
  link_expiresAt :: int
  link_createdAt :: int

text \<open>
  The state the routes act on: the three tables, the next value of each id
  sequence, and the public ids of the assets held by the Cloudinary account.
\<close>

record db =
  folders :: "Folder list"
  files :: "File list"
  shareLinks :: "ShareLink list"
  folderSeq :: int
  fileSeq :: int
  linkSeq :: int
  cloud :: "string list"

definition emptyDb :: db where
  "emptyDb = \<lparr>folders = [], files = [], shareLinks = [],
              folderSeq = 1, fileSeq = 1, linkSeq = 1, cloud = []\<rparr>"

datatype error =
    NameRequired
  | NameTooLong
  | ParentNotFound
  | ParentForbidden
  | DuplicateName
  | FolderNotFound
  | FolderForbidden
  | SelfParent
  | CircularReference
  | NotEmpty nat nat
  | ShareNotFound
  | Expired
  | FileNotFound
  | FileForbidden
  | NotInSharedFolder
  | NoFilesUploaded
  | SaveFailed
  | ServerError

text \<open>
  Prisma refuses an \<^verbatim>\<open>Int\<close> argument that is \<^verbatim>\<open>NaN\<close> or does not fit the 32-bit
  column: the query throws, and the route's \<^verbatim>\<open>catch\<close> answers 500.
\<close>

definition prismaInt :: "int option \<Rightarrow> int option" where
  "prismaInt v =
     (case v of
        None \<Rightarrow> None
      | Some i \<Rightarrow> if - 2147483648 \<le> i \<and> i \<le> 2147483647 then Some i else None)"

text \<open>
  PostgreSQL keeps no NUL in a \<^verbatim>\<open>text\<close> value and refuses a query that carries one in a
  string argument (error 22021): the Prisma call throws, and the route's \<^verbatim>\<open>catch\<close>
  answers 500.
\<close>

definition hasNul :: "string \<Rightarrow> bool" where
  "hasNul s = list_ex (\<lambda>c. of_char c = (0 :: nat)) s"

definition findFolder :: "Folder list \<Rightarrow> int \<Rightarrow> Folder option" where
  "findFolder fs i = find (\<lambda>f. folder_id f = i) fs"

definition findFile :: "File list \<Rightarrow> int \<Rightarrow> File option" where
  "findFile xs i = find (\<lambda>x. file_id x = i) xs"

definition findLinkByToken :: "ShareLink list \<Rightarrow> string \<Rightarrow> ShareLink option" where
  "findLinkByToken ls t = find (\<lambda>l. link_token l = t) ls"

section \<open>Folder routes (\<^verbatim>\<open>routes/folders.js\<close>)\<close>

text \<open>
  The middleware \<^verbatim>\<open>verifyFolderOwnership\<close>: 404 when the folder is absent, 403 when
  it belongs to another user; \<^verbatim>\<open>req.params.id\<close> is a segment of the URL, a string.
\<close>

definition verifyFolderOwnership :: "db \<Rightarrow> int \<Rightarrow> string \<Rightarrow> error + Folder" where
  "verifyFolderOwnership d userId idParam =
     (case prismaInt (parseIntStr idParam) of
        None \<Rightarrow> Inl ServerError
      | Some folderId \<Rightarrow>
          (case findFolder (folders d) folderId of
             None \<Rightarrow> Inl FolderNotFound
           | Some folder \<Rightarrow>
               if folder_ownerId folder \<noteq> userId then Inl FolderForbidden
               else Inr folder))"

text \<open>
  The input validation that \<^verbatim>\<open>router.post('/')\<close> and \<^verbatim>\<open>router.put('/:id')\<close> both
  start with; the value kept is \<^verbatim>\<open>name.trim()\<close>. A number that is not zero passes
  \<^verbatim>\<open>!name\<close> and has no \<^verbatim>\<open>trim\<close>: the call throws and the route answers 500.
\<close>

definition validateName :: "jsval \<Rightarrow> error + string" where
  "validateName name =
     (if \<not> truthy name then Inl NameRequired
      else (case name of
              JStr s \<Rightarrow>
                if length (trim s) = 0 then Inl NameRequired
                else if length (trim s) > 255 then Inl NameTooLong
                else Inr (trim s)
            | _ \<Rightarrow> Inl ServerError))"

text \<open>\<^verbatim>\<open>prisma.folder.findFirst\<close> on name, owner and parent, leaving one id out.\<close>

definition siblingNamed :: "Folder list \<Rightarrow> string \<Rightarrow> int \<Rightarrow> int option \<Rightarrow> int option \<Rightarrow> bool" where
  "siblingNamed fs nm ownerId pid excluded =
     (find (\<lambda>f. folder_name f = nm \<and> folder_ownerId f = ownerId \<and> folder_parentId f = pid
                 \<and> Some (folder_id f) \<noteq> excluded) fs \<noteq> None)"

text \<open>
  \<^verbatim>\<open>router.post('/')\<close>. The name goes to the database first in the \<^verbatim>\<open>findFirst\<close> that
  looks for a sibling of that name, after the parent has been checked: that query
  throws on a name with a NUL. The new row takes the next value of the id sequence;
  the insert fails when that value no longer fits the column.
\<close>

definition createFolder :: "db \<Rightarrow> int \<Rightarrow> jsval \<Rightarrow> jsval \<Rightarrow> (error + Folder) \<times> db" where
  "createFolder d ownerId name parentId =
     (case validateName name of
        Inl e \<Rightarrow> (Inl e, d)
      | Inr nm \<Rightarrow>
          (case (if truthy parentId
                 then (case prismaInt (parseInt parentId) of
                         None \<Rightarrow> Inl ServerError
                       | Some p \<Rightarrow>
                           (case findFolder (folders d) p of
                              None \<Rightarrow> Inl ParentNotFound
                            | Some parentFolder \<Rightarrow>
                                if folder_ownerId parentFolder \<noteq> ownerId
                                then Inl ParentForbidden else Inr (Some p)))
                 else Inr None) of
             Inl e \<Rightarrow> (Inl e, d)
           | Inr pid \<Rightarrow>
               if hasNul nm then (Inl ServerError, d)
               else if siblingNamed (folders d) nm ownerId pid None then (Inl DuplicateName, d)
               else if folderSeq d > 2147483647 then (Inl ServerError, d)
               else
                 (let folder = \<lparr>folder_id = folderSeq d, folder_name = nm,
                                folder_ownerId = ownerId, folder_parentId = pid\<rparr>
                  in (Inr folder,
                      d\<lparr>folders := folders d @ [folder], folderSeq := folderSeq d + 1\<rparr>))))"

text \<open>
  \<^verbatim>\<open>checkCircularReference\<close>: walk the parent chain from \<^verbatim>\<open>checkParentId\<close> upward,
  looking for \<^verbatim>\<open>targetId\<close>. The source recurses without a bound, so the model is a
  partial function: \<open>None\<close> is a walk that never returns.
\<close>

partial_function (option) checkCircularReference ::
    "Folder list \<Rightarrow> int option \<Rightarrow> int \<Rightarrow> bool option" where
  "checkCircularReference fs checkParentId targetId =
     (case checkParentId of
        None \<Rightarrow> Some False
      | Some c \<Rightarrow>
          if c = 0 then Some False
          else (case findFolder fs c of
                  None \<Rightarrow> Some False
                | Some parent \<Rightarrow>
                    if folder_id parent = targetId then Some True
                    else checkCircularReference fs (folder_parentId parent) targetId))"

text \<open>
  \<^verbatim>\<open>router.put('/:id')\<close> behind \<^verbatim>\<open>verifyFolderOwnership\<close>. \<^verbatim>\<open>newParentId\<close> starts as
  \<^verbatim>\<open>null\<close> and is only read from the body when \<^verbatim>\<open>parentId\<close> is neither absent, nor
  \<^verbatim>\<open>null\<close>, nor the empty string; the update then writes both columns. The
  \<^verbatim>\<open>findFirst\<close> that looks for a sibling of the new name comes after the checks of the
  parent; it throws on a name with a NUL, and nothing is written.
\<close>

definition updateFolder ::
    "db \<Rightarrow> int \<Rightarrow> string \<Rightarrow> jsval \<Rightarrow> jsval \<Rightarrow> ((error + Folder) \<times> db) option" where
  "updateFolder d userId idParam name parentId =
     (case verifyFolderOwnership d userId idParam of
        Inl e \<Rightarrow> Some (Inl e, d)
      | Inr folder \<Rightarrow>
     (case prismaInt (parseIntStr idParam) of
        None \<Rightarrow> Some (Inl ServerError, d)
      | Some folderId \<Rightarrow>
     (case validateName name of
        Inl e \<Rightarrow> Some (Inl e, d)
      | Inr nm \<Rightarrow>
     (case (if parentId \<noteq> JUndefined \<and> parentId \<noteq> JNull \<and> parentId \<noteq> JStr []
            then (if parseInt parentId = Some folderId then Some (Inl SelfParent)
                  else (case prismaInt (parseInt parentId) of
                          None \<Rightarrow> Some (Inl ServerError)
                        | Some newParentId \<Rightarrow>
                            (case findFolder (folders d) newParentId of
                               None \<Rightarrow> Some (Inl ParentNotFound)
                             | Some parentFolder \<Rightarrow>
                                 if folder_ownerId parentFolder \<noteq> userId
                                 then Some (Inl ParentForbidden)
                                 else (case checkCircularReference (folders d)
                                              (Some newParentId) folderId of
                                         None \<Rightarrow> None
                                       | Some isCircular \<Rightarrow>
                                           if isCircular then Some (Inl CircularReference)
                                           else Some (Inr (Some newParentId))))))
            else Some (Inr None)) of
        None \<Rightarrow> None
      | Some (Inl e) \<Rightarrow> Some (Inl e, d)
      | Some (Inr newParentId) \<Rightarrow>
          if hasNul nm then Some (Inl ServerError, d)
          else if siblingNamed (folders d) nm userId newParentId (Some folderId)
          then Some (Inl DuplicateName, d)
          else
            (let updatedFolder = folder\<lparr>folder_name := nm, folder_parentId := newParentId\<rparr>
             in Some (Inr updatedFolder,
                      d\<lparr>folders := map (\<lambda>f. if folder_id f = folderId then updatedFolder else f)
                                        (folders d)\<rparr>))))))"

text \<open>
  The parent of a folder id as the table gives it, and the ascent along parents:
  \<open>onChain fs n a c\<close> holds when \<open>a\<close> is \<open>c\<close> or is met within \<open>n\<close> steps upward
  from \<open>c\<close>.
\<close>

definition parentOf :: "Folder list \<Rightarrow> int \<Rightarrow> int option" where
  "parentOf fs i = (case findFolder fs i of None \<Rightarrow> None | Some f \<Rightarrow> folder_parentId f)"

fun onChain :: "Folder list \<Rightarrow> nat \<Rightarrow> int \<Rightarrow> int \<Rightarrow> bool" where
  "onChain fs 0 a c = (a = c)"
| "onChain fs (Suc n) a c =
     (a = c \<or> (case parentOf fs c of None \<Rightarrow> False | Some p \<Rightarrow> onChain fs n a p))"

text \<open>
  \<^verbatim>\<open>prisma.folder.delete\<close>. The schema declares \<^verbatim>\<open>onDelete: Cascade\<close> on
  \<^verbatim>\<open>Folder.parent\<close>, \<^verbatim>\<open>File.folder\<close> and \<^verbatim>\<open>ShareLink.folder\<close>: with the row, the
  database deletes every folder below it, and every file and share link of a
  deleted folder. A chain of distinct rows is no longer than the table, so the
  ascent is bounded by its length. Deleting a row that does not exist throws.
\<close>

definition prismaFolderDelete :: "db \<Rightarrow> int \<Rightarrow> (error + unit) \<times> db" where
  "prismaFolderDelete d i =
     (case findFolder (folders d) i of
        None \<Rightarrow> (Inl ServerError, d)
      | Some _ \<Rightarrow>
          (let gone = onChain (folders d) (length (folders d)) i
           in (Inr (),
               d\<lparr>folders := filter (\<lambda>f. \<not> gone (folder_id f)) (folders d),
                 files := filter (\<lambda>x. case file_folderId x of None \<Rightarrow> True
                                      | Some c \<Rightarrow> \<not> gone c) (files d),
                 shareLinks := filter (\<lambda>l. \<not> gone (link_folderId l)) (shareLinks d)\<rparr>)))"

text \<open>
  \<^verbatim>\<open>deleteFolderRecursively\<close>: the children of the folder first, each with its own
  subtree, then the folder. The loop over the files of the folder only unlinks
  \<^verbatim>\<open>file.localPath\<close> where \<^verbatim>\<open>fs.existsSync\<close> finds it; the \<^verbatim>\<open>File\<close> model has no such
  column, \<^verbatim>\<open>existsSync(undefined)\<close> is false, and the loop changes nothing. The
  recursion has no bound in the source; the model counts it down with fuel, \<open>None\<close>
  when the fuel runs out. The value returned is the list of ids handed to
  \<^verbatim>\<open>prisma.folder.delete\<close>, in call order; an exception leaves the rows deleted so
  far deleted (no transaction wraps the calls).
\<close>

fun deleteFolderRecursively :: "nat \<Rightarrow> int \<Rightarrow> int \<Rightarrow> db \<Rightarrow> ((error + int list) \<times> db) option"
  and deleteChildren :: "nat \<Rightarrow> Folder list \<Rightarrow> int \<Rightarrow> db \<Rightarrow> ((error + int list) \<times> db) option"
where
  "deleteFolderRecursively 0 folderId ownerId d = None"
| "deleteFolderRecursively (Suc n) folderId ownerId d =
     (case deleteChildren n
             (filter (\<lambda>f. folder_parentId f = Some folderId \<and> folder_ownerId f = ownerId)
                (folders d)) ownerId d of
        None \<Rightarrow> None
      | Some (Inl e, d') \<Rightarrow> Some (Inl e, d')
      | Some (Inr done, d') \<Rightarrow>
          (case prismaFolderDelete d' folderId of
             (Inl e, d'') \<Rightarrow> Some (Inl e, d'')
           | (Inr _, d'') \<Rightarrow> Some (Inr (done @ [folderId]), d'')))"
| "deleteChildren n [] ownerId d = Some (Inr [], d)"
| "deleteChildren n (child # rest) ownerId d =
     (case deleteFolderRecursively n (folder_id child) ownerId d of
        None \<Rightarrow> None
      | Some (Inl e, d') \<Rightarrow> Some (Inl e, d')
      | Some (Inr done, d') \<Rightarrow>
          (case deleteChildren n rest ownerId d' of
             None \<Rightarrow> None
           | Some (Inl e, d'') \<Rightarrow> Some (Inl e, d'')
           | Some (Inr done', d'') \<Rightarrow> Some (Inr (done @ done'), d'')))"

datatype deleted = DeletedRecursively nat nat | DeletedEmpty

text \<open>
  \<^verbatim>\<open>router.delete('/:id')\<close> behind \<^verbatim>\<open>verifyFolderOwnership\<close>; \<^verbatim>\<open>force\<close> is the query
  parameter, and only the string \<^verbatim>\<open>'true'\<close> asks for the recursive deletion.
\<close>

definition deleteFolder ::
    "nat \<Rightarrow> db \<Rightarrow> int \<Rightarrow> string \<Rightarrow> jsval \<Rightarrow> ((error + deleted) \<times> db) option" where
  "deleteFolder fuel d userId idParam force =
     (case verifyFolderOwnership d userId idParam of
        Inl e \<Rightarrow> Some (Inl e, d)
      | Inr folder \<Rightarrow>
     (case prismaInt (parseIntStr idParam) of
        None \<Rightarrow> Some (Inl ServerError, d)
      | Some folderId \<Rightarrow>
          (let childrenCount =
                 length (filter (\<lambda>f. folder_parentId f = Some folderId
                                      \<and> folder_ownerId f = userId) (folders d));
               filesCount =
                 length (filter (\<lambda>x. file_folderId x = Some folderId
                                      \<and> file_ownerId x = userId) (files d));
               hasContent = (childrenCount > 0 \<or> filesCount > 0)
           in if hasContent \<and> force \<noteq> JStr ''true''
              then Some (Inl (NotEmpty childrenCount filesCount), d)
              else if force = JStr ''true''
              then (case deleteFolderRecursively fuel folderId userId d of
                      None \<Rightarrow> None
                    | Some (Inl e, d') \<Rightarrow> Some (Inl ServerError, d')
                    | Some (Inr done, d') \<Rightarrow>
                        Some (Inr (DeletedRecursively childrenCount filesCount), d'))
              else (case prismaFolderDelete d folderId of
                      (Inl e, d') \<Rightarrow> Some (Inl ServerError, d')
                    | (Inr _, d') \<Rightarrow> Some (Inr DeletedEmpty, d')))))"

section \<open>File routes\<close>

text \<open>
  An element of \<^verbatim>\<open>req.files\<close> as \<^verbatim>\<open>multer-storage-cloudinary\<close> leaves it: the asset is
  on Cloudinary already, \<^verbatim>\<open>path\<close> is its URL and \<^verbatim>\<open>filename\<close> its public id.
\<close>

record upload =
  up_originalname :: string
  up_mimetype :: string
  up_size :: int
  up_path :: string
  up_filename :: string

text \<open>
  \<^verbatim>\<open>try { await cloudinary.uploader.destroy(id) } catch { console.error(...) }\<close>: the
  asset is gone unless the call throws; \<open>destroyThrows\<close> says for which ids it does.
\<close>

definition destroyQuietly :: "(string \<Rightarrow> bool) \<Rightarrow> string \<Rightarrow> db \<Rightarrow> db" where
  "destroyQuietly destroyThrows publicId d =
     (if destroyThrows publicId then d else d\<lparr>cloud := removeAll publicId (cloud d)\<rparr>)"

fun destroyAll :: "(string \<Rightarrow> bool) \<Rightarrow> upload list \<Rightarrow> db \<Rightarrow> db" where
  "destroyAll destroyThrows [] d = d"
| "destroyAll destroyThrows (u # us) d =
     destroyAll destroyThrows us (destroyQuietly destroyThrows (up_filename u) d)"

text \<open>
  The loop of \<^verbatim>\<open>router.post('/upload')\<close> over \<^verbatim>\<open>req.files\<close>: one
  \<^verbatim>\<open>prisma.file.create\<close> per file, the saved row pushed on \<^verbatim>\<open>savedFiles\<close>; when the
  create throws (\<open>createThrows\<close> says for which files, and the id sequence may be
  exhausted) the error is logged, the asset destroyed, and the loop goes on.
\<close>

fun saveFiles ::
    "(upload \<Rightarrow> bool) \<Rightarrow> (string \<Rightarrow> bool) \<Rightarrow> int \<Rightarrow> int option \<Rightarrow> upload list
      \<Rightarrow> File list \<Rightarrow> db \<Rightarrow> File list \<times> db" where
  "saveFiles createThrows destroyThrows ownerId folderId [] savedFiles d = (savedFiles, d)"
| "saveFiles createThrows destroyThrows ownerId folderId (u # us) savedFiles d =
     (if createThrows u \<or> fileSeq d > 2147483647
      then saveFiles createThrows destroyThrows ownerId folderId us savedFiles
             (destroyQuietly destroyThrows (up_filename u) d)
      else
        (let savedFile = \<lparr>file_id = fileSeq d, file_name = up_originalname u,
                           file_mimetype = up_mimetype u, file_size = up_size u,
                           file_cloudUrl = up_path u, file_publicId = up_filename u,
                           file_folderId = folderId, file_ownerId = ownerId\<rparr>
         in saveFiles createThrows destroyThrows ownerId folderId us (savedFiles @ [savedFile])
              (d\<lparr>files := files d @ [savedFile], fileSeq := fileSeq d + 1\<rparr>)))"

text \<open>The body of the 201 answer: \<^verbatim>\<open>files\<close>, \<^verbatim>\<open>uploadedCount\<close>, \<^verbatim>\<open>totalSize\<close>.\<close>

record uploadResponse =
  resp_files :: "File list"
  resp_uploadedCount :: nat
  resp_totalSize :: int

text \<open>
  \<^verbatim>\<open>router.post('/upload')\<close>, the handler behind the multer middleware, which has
  stored every file of the batch on Cloudinary before the handler runs.
\<close>

definition uploadFiles ::
    "(upload \<Rightarrow> bool) \<Rightarrow> (string \<Rightarrow> bool) \<Rightarrow> db \<Rightarrow> int \<Rightarrow> jsval \<Rightarrow> upload list
      \<Rightarrow> (error + uploadResponse) \<times> db" where
  "uploadFiles createThrows destroyThrows d0 ownerId folderId reqFiles =
     (let d = d0\<lparr>cloud := cloud d0 @ map up_filename reqFiles\<rparr>
      in case (if truthy folderId
               then (case prismaInt (parseInt folderId) of
                       None \<Rightarrow> Inl ServerError
                     | Some p \<Rightarrow>
                         (case findFolder (folders d) p of
                            None \<Rightarrow> Inl FolderNotFound
                          | Some folder \<Rightarrow>
                              if folder_ownerId folder \<noteq> ownerId
                              then Inl FolderForbidden else Inr (Some p)))
               else Inr None) of
           Inl e \<Rightarrow> (Inl e, destroyAll destroyThrows reqFiles d)
         | Inr target \<Rightarrow>
             if length reqFiles = 0 then (Inl NoFilesUploaded, d)
             else (case saveFiles createThrows destroyThrows ownerId target reqFiles [] d of
                     (savedFiles, d') \<Rightarrow>
                       if length savedFiles = 0 then (Inl SaveFailed, d')
                       else (Inr \<lparr>resp_files = savedFiles,
                                  resp_uploadedCount = length savedFiles,
                                  resp_totalSize = foldl (\<lambda>sum file. sum + file_size file) 0
                                                     savedFiles\<rparr>, d')))"

definition verifyFileOwnership :: "db \<Rightarrow> int \<Rightarrow> string \<Rightarrow> error + File" where
  "verifyFileOwnership d userId idParam =
     (case prismaInt (parseIntStr idParam) of
        None \<Rightarrow> Inl ServerError
      | Some fileId \<Rightarrow>
          (case findFile (files d) fileId of
             None \<Rightarrow> Inl FileNotFound
           | Some file \<Rightarrow>
               if file_ownerId file \<noteq> userId then Inl FileForbidden else Inr file))"

text \<open>
  \<^verbatim>\<open>router.put('/:id')\<close> of the file routes: rename a file, move it to a folder. As
  for folders, the \<^verbatim>\<open>findFirst\<close> on the new name throws on a NUL.
\<close>

definition updateFile :: "db \<Rightarrow> int \<Rightarrow> string \<Rightarrow> jsval \<Rightarrow> jsval \<Rightarrow> (error + File) \<times> db" where
  "updateFile d userId idParam name folderId =
     (case verifyFileOwnership d userId idParam of
        Inl e \<Rightarrow> (Inl e, d)
      | Inr file \<Rightarrow>
     (case prismaInt (parseIntStr idParam) of
        None \<Rightarrow> (Inl ServerError, d)
      | Some fileId \<Rightarrow>
     (case validateName name of
        Inl e \<Rightarrow> (Inl e, d)
      | Inr nm \<Rightarrow>
     (case (if folderId \<noteq> JUndefined \<and> folderId \<noteq> JNull \<and> folderId \<noteq> JStr []
            then (case prismaInt (parseInt folderId) of
                    None \<Rightarrow> Inl ServerError
                  | Some newFolderId \<Rightarrow>
                      (case findFolder (folders d) newFolderId of
                         None \<Rightarrow> Inl FolderNotFound
                       | Some folder \<Rightarrow>
                           if folder_ownerId folder \<noteq> userId then Inl FolderForbidden
                           else Inr (Some newFolderId)))
            else Inr None) of
        Inl e \<Rightarrow> (Inl e, d)
      | Inr newFolderId \<Rightarrow>
          if hasNul nm then (Inl ServerError, d)
          else if find (\<lambda>x. file_name x = nm \<and> file_ownerId x = userId
                        \<and> file_folderId x = newFolderId \<and> file_id x \<noteq> fileId) (files d) \<noteq> None
          then (Inl DuplicateName, d)
          else
            (let updatedFile = file\<lparr>file_name := nm, file_folderId := newFolderId\<rparr>
             in (Inr updatedFile,
                 d\<lparr>files := map (\<lambda>x. if file_id x = fileId then updatedFile else x)
                                 (files d)\<rparr>))))))"

text \<open>\<^verbatim>\<open>router.delete('/:id')\<close> of the file routes: the row first, then the asset.\<close>

definition deleteFile :: "(string \<Rightarrow> bool) \<Rightarrow> db \<Rightarrow> int \<Rightarrow> string \<Rightarrow> (error + File) \<times> db" where
  "deleteFile destroyThrows d userId idParam =
     (case verifyFileOwnership d userId idParam of
        Inl e \<Rightarrow> (Inl e, d)
      | Inr file \<Rightarrow>
     (case prismaInt (parseIntStr idParam) of
        None \<Rightarrow> (Inl ServerError, d)
      | Some fileId \<Rightarrow>
          (Inr file,
           destroyQuietly destroyThrows (file_publicId file)
             (d\<lparr>files := filter (\<lambda>x. file_id x \<noteq> fileId) (files d)\<rparr>))))"

section \<open>Share links (\<^verbatim>\<open>routes/shareLinks.js\<close>, \<^verbatim>\<open>routes/share.js\<close>)\<close>

text \<open>
  The match of \<^verbatim>\<open>/^(\d+)([dh])$/\<close>: one or more decimal digits, then \<^verbatim>\<open>d\<close> or \<^verbatim>\<open>h\<close>,
  and nothing else.
\<close>

definition durationMatch :: "string \<Rightarrow> (string \<times> char) option" where
  "durationMatch s =
     (if s \<noteq> [] \<and> butlast s \<noteq> [] \<and> list_all isDigit (butlast s)
         \<and> (last s = CHR ''d'' \<or> last s = CHR ''h'')
      then Some (butlast s, last s) else None)"

text \<open>
  A \<^verbatim>\<open>Date\<close> holds a time value, milliseconds since the epoch in UTC; a time beyond
  \<open>\<plusminus>8.64e15\<close> ms is an invalid \<^verbatim>\<open>Date\<close>, here \<open>None\<close>.
\<close>

definition timeClip :: "int \<Rightarrow> int option" where
  "timeClip t = (if \<bar>t\<bar> \<le> 8640000000000000 then Some t else None)"

text \<open>
  The fields of a time value as ECMA-262 (21.4.1) defines them; \<open>div\<close> and \<open>mod\<close>
  on integers are \<^verbatim>\<open>floor\<close> and the modulo of the standard.
\<close>

definition Day :: "int \<Rightarrow> int" where
  "Day t = t div 86400000"

definition TimeWithinDay :: "int \<Rightarrow> int" where
  "TimeWithinDay t = t mod 86400000"

definition HourFromTime :: "int \<Rightarrow> int" where
  "HourFromTime t = (t div 3600000) mod 24"

definition MinFromTime :: "int \<Rightarrow> int" where
  "MinFromTime t = (t div 60000) mod 60"

definition SecFromTime :: "int \<Rightarrow> int" where
  "SecFromTime t = (t div 1000) mod 60"

definition msFromTime :: "int \<Rightarrow> int" where
  "msFromTime t = t mod 1000"

definition MakeTime :: "int \<Rightarrow> int \<Rightarrow> int \<Rightarrow> int \<Rightarrow> int" where
  "MakeTime hour minute sec ms = hour * 3600000 + minute * 60000 + sec * 1000 + ms"

definition MakeDate :: "int \<Rightarrow> int \<Rightarrow> int" where
  "MakeDate day time = day * 86400000 + time"

text \<open>
  The day of the month, 1 to 31, in the proleptic Gregorian calendar: the day
  number is counted from 1 March 0000, split into eras of 400 years (146097 days),
  the year of the era and the day of that year, which starts in March.
\<close>

definition DateFromTime :: "int \<Rightarrow> int" where
  "DateFromTime t =
     (let doe = (Day t + 719468) mod 146097;
          yoe = (doe - doe div 1460 + doe div 36524 - doe div 146096) div 365;
          doy = doe - (365 * yoe + yoe div 4 - yoe div 100);
          mp = (5 * doy + 2) div 153
      in doy - (153 * mp + 2) div 5 + 1)"

text \<open>
  The time zone of the server is a parameter: \<open>localTZA t isUTC\<close> is the offset of
  its local time from UTC in milliseconds, at the instant \<open>t\<close> when \<open>isUTC\<close>, and
  for the wall-clock time \<open>t\<close> otherwise (for a wall-clock time that a transition
  repeats or skips, the offset before the transition).
\<close>

type_synonym timeZone = "int \<Rightarrow> bool \<Rightarrow> int"

definition LocalTime :: "timeZone \<Rightarrow> int \<Rightarrow> int" where
  "LocalTime localTZA t = t + localTZA t True"

definition UTC :: "timeZone \<Rightarrow> int \<Rightarrow> int" where
  "UTC localTZA t = t - localTZA t False"

text \<open>
  \<^verbatim>\<open>Date.prototype.getHours\<close>, \<^verbatim>\<open>setHours\<close>, \<^verbatim>\<open>getDate\<close> and \<^verbatim>\<open>setDate\<close> read and
  write the fields of the local time. \<^verbatim>\<open>setHours(hour)\<close> keeps the day, the minutes,
  the seconds and the milliseconds of the local time; \<^verbatim>\<open>setDate(date)\<close> keeps the
  time within the day and takes as day \<^verbatim>\<open>MakeDay(year, month, date)\<close>, the day number
  of the first of the month of the local time plus \<open>date - 1\<close>. The new local time
  goes back to UTC and through \<^verbatim>\<open>TimeClip\<close>.
\<close>

definition getHours :: "timeZone \<Rightarrow> int \<Rightarrow> int" where
  "getHours localTZA thisTime = HourFromTime (LocalTime localTZA thisTime)"

definition setHours :: "timeZone \<Rightarrow> int \<Rightarrow> int \<Rightarrow> int option" where
  "setHours localTZA thisTime hour =
     (let t = LocalTime localTZA thisTime
      in timeClip (UTC localTZA
           (MakeDate (Day t) (MakeTime hour (MinFromTime t) (SecFromTime t) (msFromTime t)))))"

definition getDate :: "timeZone \<Rightarrow> int \<Rightarrow> int" where
  "getDate localTZA thisTime = DateFromTime (LocalTime localTZA thisTime)"

definition setDate :: "timeZone \<Rightarrow> int \<Rightarrow> int \<Rightarrow> int option" where
  "setDate localTZA thisTime date =
     (let t = LocalTime localTZA thisTime;
          firstOfMonth = Day t - (DateFromTime t - 1)
      in timeClip (UTC localTZA (MakeDate (firstOfMonth + date - 1) (TimeWithinDay t))))"

text \<open>
  The expiry computed from \<^verbatim>\<open>new Date()\<close>, here \<open>now\<close>: \<^verbatim>\<open>numValue\<close> days or hours
  added to the day of the month or to the hour of the local time, seven days when
  the duration does not match.
\<close>

definition expiryOf :: "timeZone \<Rightarrow> int \<Rightarrow> string \<Rightarrow> int option" where
  "expiryOf localTZA now duration =
     (case durationMatch duration of
        Some (value, unit) \<Rightarrow>
          (let numValue = digitsValue 10 digitVal value
           in if unit = CHR ''d''
              then setDate localTZA now (getDate localTZA now + numValue)
              else if unit = CHR ''h''
              then setHours localTZA now (getHours localTZA now + numValue)
              else Some now)
      | None \<Rightarrow> setDate localTZA now (getDate localTZA now + 7))"

text \<open>
  \<^verbatim>\<open>router.post('/folders/:id/share')\<close>. \<open>localTZA\<close> is the time zone of the
  server, \<open>now\<close> is the clock read by \<^verbatim>\<open>new Date()\<close>,
  \<open>dbNow\<close> the clock of the database when it fills \<^verbatim>\<open>createdAt\<close> with its default
  \<^verbatim>\<open>now()\<close>, and \<open>uuid\<close> the value \<^verbatim>\<open>uuidv4()\<close> returns. \<^verbatim>\<open>duration\<close> defaults to
  \<^verbatim>\<open>'7d'\<close> when the body has none; a value without \<^verbatim>\<open>match\<close> throws. The insert
  throws on an invalid date and on a token already in the table.
\<close>

definition createShareLink ::
    "timeZone \<Rightarrow> db \<Rightarrow> int \<Rightarrow> int \<Rightarrow> string \<Rightarrow> int \<Rightarrow> string \<Rightarrow> jsval
      \<Rightarrow> (error + ShareLink) \<times> db" where
  "createShareLink localTZA d now dbNow uuid userId idParam duration =
     (case prismaInt (parseIntStr idParam) of
        None \<Rightarrow> (Inl ServerError, d)
      | Some folderId \<Rightarrow>
     (case findFolder (folders d) folderId of
        None \<Rightarrow> (Inl FolderNotFound, d)
      | Some folder \<Rightarrow>
          if folder_ownerId folder \<noteq> userId then (Inl FolderForbidden, d)
          else
            (case (case duration of JUndefined \<Rightarrow> Some ''7d'' | JStr s \<Rightarrow> Some s | _ \<Rightarrow> None) of
               None \<Rightarrow> (Inl ServerError, d)
             | Some dur \<Rightarrow>
                 (case expiryOf localTZA now dur of
                    None \<Rightarrow> (Inl ServerError, d)
                  | Some expiresAt \<Rightarrow>
                      if findLinkByToken (shareLinks d) uuid \<noteq> None \<or> linkSeq d > 2147483647
                      then (Inl ServerError, d)
                      else
                        (let shareLink = \<lparr>link_id = linkSeq d, link_token = uuid,
                                           link_folderId = folderId,
                                           link_expiresAt = expiresAt,
                                           link_createdAt = dbNow\<rparr>
                         in (Inr shareLink,
                             d\<lparr>shareLinks := shareLinks d @ [shareLink],
                               linkSeq := linkSeq d + 1\<rparr>))))))"

text \<open>\<^verbatim>\<open>router.delete('/sharelinks/:id')\<close>: the owner of the folder revokes the link.\<close>

definition deleteShareLink :: "db \<Rightarrow> int \<Rightarrow> string \<Rightarrow> (error + ShareLink) \<times> db" where
  "deleteShareLink d userId idParam =
     (case prismaInt (parseIntStr idParam) of
        None \<Rightarrow> (Inl ServerError, d)
      | Some shareId \<Rightarrow>
     (case find (\<lambda>l. link_id l = shareId) (shareLinks d) of
        None \<Rightarrow> (Inl ShareNotFound, d)
      | Some shareLink \<Rightarrow>
          (case findFolder (folders d) (link_folderId shareLink) of
             None \<Rightarrow> (Inl ServerError, d)
           | Some folder \<Rightarrow>
               if folder_ownerId folder \<noteq> userId then (Inl FolderForbidden, d)
               else (Inr shareLink,
                     d\<lparr>shareLinks := filter (\<lambda>l. link_id l \<noteq> shareId) (shareLinks d)\<rparr>))))"

text \<open>
  The checks every public route of \<^verbatim>\<open>share.js\<close> starts with: the link of the token,
  404 when there is none, 403 when \<^verbatim>\<open>shareLink.expiresAt < now\<close>. What follows in
  \<^verbatim>\<open>router.get('/:token')\<close> only reads the folder of the link and what is below it.
\<close>

definition resolveShare :: "db \<Rightarrow> int \<Rightarrow> string \<Rightarrow> error + ShareLink" where
  "resolveShare d now token =
     (case findLinkByToken (shareLinks d) token of
        None \<Rightarrow> Inl ShareNotFound
      | Some shareLink \<Rightarrow>
          if link_expiresAt shareLink < now then Inl Expired else Inr shareLink)"

text \<open>
  The \<^verbatim>\<open>while (currentFolderId)\<close> loop of \<^verbatim>\<open>router.get('/:token/files/:fileId')\<close>,
  which climbs from the folder of the file until it meets the shared folder, a
  missing row or a null parent. The loop has no bound: \<open>None\<close> is a loop that never
  ends.
\<close>

partial_function (option) climbToShared ::
    "Folder list \<Rightarrow> int option \<Rightarrow> int \<Rightarrow> bool option" where
  "climbToShared fs currentFolderId sharedId =
     (case currentFolderId of
        None \<Rightarrow> Some False
      | Some c \<Rightarrow>
          if c = 0 then Some False
          else (case findFolder fs c of
                  None \<Rightarrow> Some False
                | Some folder \<Rightarrow>
                    if folder_id folder = sharedId then Some True
                    else climbToShared fs (folder_parentId folder) sharedId))"

definition getSharedFile :: "db \<Rightarrow> int \<Rightarrow> string \<Rightarrow> string \<Rightarrow> (error + File) option" where
  "getSharedFile d now token fileId =
     (case resolveShare d now token of
        Inl e \<Rightarrow> Some (Inl e)
      | Inr shareLink \<Rightarrow>
     (case prismaInt (parseIntStr fileId) of
        None \<Rightarrow> Some (Inl ServerError)
      | Some fileIdInt \<Rightarrow>
     (case findFile (files d) fileIdInt of
        None \<Rightarrow> Some (Inl FileNotFound)
      | Some file \<Rightarrow>
          (case (if file_folderId file = Some (link_folderId shareLink) then Some True
                 else climbToShared (folders d) (file_folderId file) (link_folderId shareLink)) of
             None \<Rightarrow> None
           | Some inSharedFolder \<Rightarrow>
               if \<not> inSharedFolder then Some (Inl NotInSharedFolder)
               else Some (Inr file)))))"

section \<open>The folder tree\<close>

text \<open>
  The parent relation of the folder table, as pairs (parent, child): the ancestors
  of a folder are what the reflexive transitive closure relates to it.
\<close>

definition parentRel :: "Folder list \<Rightarrow> (int \<times> int) set" where
  "parentRel fs = {(p, c). parentOf fs c = Some p}"

text \<open>
  The ascent from a folder to a null parent: \<open>reachesRoot fs n i\<close> holds when the
  walk from \<open>i\<close> meets a folder without parent within \<open>n\<close> rows.
\<close>

fun reachesRoot :: "Folder list \<Rightarrow> nat \<Rightarrow> int \<Rightarrow> bool" where
  "reachesRoot fs 0 i = False"
| "reachesRoot fs (Suc n) i =
     (case findFolder fs i of
        None \<Rightarrow> False
      | Some f \<Rightarrow> (case folder_parentId f of None \<Rightarrow> True | Some p \<Rightarrow> reachesRoot fs n p))"

text \<open>
  What the tables keep true between requests: folder ids are distinct values the
  sequence has given out, a parent is a row of the same owner, no folder is above
  itself, and the folder of a file or of a share link is a row.
\<close>

definition consistent :: "db \<Rightarrow> bool" where
  "consistent d =
     (distinct (map folder_id (folders d))
      \<and> 1 \<le> folderSeq d \<and> folderSeq d \<le> 2147483648
      \<and> (\<forall>f \<in> set (folders d). 1 \<le> folder_id f \<and> folder_id f < folderSeq d)
      \<and> (\<forall>f \<in> set (folders d). \<forall>p. folder_parentId f = Some p \<longrightarrow>
            (\<exists>g \<in> set (folders d). folder_id g = p \<and> folder_ownerId g = folder_ownerId f))
      \<and> acyclic (parentRel (folders d))
      \<and> (\<forall>x \<in> set (files d). \<forall>c. file_folderId x = Some c \<longrightarrow>
            (\<exists>g \<in> set (folders d). folder_id g = c \<and> folder_ownerId g = file_ownerId x))
      \<and> (\<forall>l \<in> set (shareLinks d). \<exists>g \<in> set (folders d). folder_id g = link_folderId l))"

text \<open>
  The states the routes can bring about: from the empty database, any request to a
  route that writes, by any user and with any arguments, whatever the time zone,
  the clocks, the token generator, the database and Cloudinary answer.
\<close>

inductive reachable :: "db \<Rightarrow> bool" where
  r_empty: "reachable emptyDb"
| r_createFolder:
    "reachable d \<Longrightarrow> createFolder d userId name parentId = (r1, d') \<Longrightarrow> reachable d'"
| r_updateFolder:
    "reachable d \<Longrightarrow> updateFolder d userId idParam name parentId = Some (r1, d')
      \<Longrightarrow> reachable d'"
| r_deleteFolder:
    "reachable d \<Longrightarrow> deleteFolder fuel d userId idParam force = Some (r2, d')
      \<Longrightarrow> reachable d'"
| r_uploadFiles:
    "reachable d \<Longrightarrow> uploadFiles createThrows destroyThrows d userId folderId reqFiles = (r3, d')
      \<Longrightarrow> reachable d'"
| r_updateFile:
    "reachable d \<Longrightarrow> updateFile d userId idParam name folderId = (r4, d') \<Longrightarrow> reachable d'"
| r_deleteFile:
    "reachable d \<Longrightarrow> deleteFile destroyThrows d userId idParam = (r4, d') \<Longrightarrow> reachable d'"
| r_createShareLink:
    "reachable d
      \<Longrightarrow> createShareLink localTZA d now dbNow uuid userId idParam duration = (r5, d')
      \<Longrightarrow> reachable d'"
| r_deleteShareLink:
    "reachable d \<Longrightarrow> deleteShareLink d userId idParam = (r5, d') \<Longrightarrow> reachable d'"

text \<open>A duration the grammar accepts and whose digits are all zero.\<close>

definition zeroValued :: "jsval \<Rightarrow> bool" where
  "zeroValued duration =
     (case duration of
        JStr s \<Rightarrow> (case durationMatch s of
                     Some (value, unit) \<Rightarrow> list_all (\<lambda>c. c = CHR ''0'') value
                   | None \<Rightarrow> False)
      | _ \<Rightarrow> False)"

text \<open>
  The length of time a duration asks for, in milliseconds: \<open>n\<close> hours or \<open>n\<close> days
  of 24 hours for the \<^verbatim>\<open>nh\<close> and \<^verbatim>\<open>nd\<close> of the grammar, seven days for a duration
  that is absent or outside the grammar.
\<close>

definition durationMs :: "jsval \<Rightarrow> int" where
  "durationMs duration =
     (case duration of
        JStr s \<Rightarrow> (case durationMatch s of
                     Some (value, unit) \<Rightarrow>
                       digitsValue 10 digitVal value
                         * (if unit = CHR ''h'' then 3600000 else 86400000)
                   | None \<Rightarrow> 7 * 86400000)
      | _ \<Rightarrow> 7 * 86400000)"

text \<open>
  The folders of a set of ids, the files in them and the share links on them
  taken out of the tables.
\<close>

definition withoutFolders :: "db \<Rightarrow> int set \<Rightarrow> db" where
  "withoutFolders d X =
     d\<lparr>folders := filter (\<lambda>f. folder_id f \<notin> X) (folders d),
       files := filter (\<lambda>x. case file_folderId x of None \<Rightarrow> True | Some c \<Rightarrow> c \<notin> X) (files d),
       shareLinks := filter (\<lambda>l. link_folderId l \<notin> X) (shareLinks d)\<rparr>"

text \<open>A folder and everything below it.\<close>

definition subtree :: "Folder list \<Rightarrow> int \<Rightarrow> int set" where
  "subtree fs i = {x. (i, x) \<in> (parentRel fs)\<^sup>*}"


section \<open>A small database\<close>

text \<open>
  User 1 owns \<^verbatim>\<open>Docs\<close> (1) with \<^verbatim>\<open>2024\<close> (2) inside, and \<^verbatim>\<open>Pics\<close> (3) and the empty
  \<^verbatim>\<open>Tmp\<close> (4) beside it; \<^verbatim>\<open>report.pdf\<close> is in \<^verbatim>\<open>2024\<close>, \<^verbatim>\<open>cat.png\<close> in \<^verbatim>\<open>Pics\<close>;
  \<^verbatim>\<open>2024\<close> was shared at time 0 for one hour.
\<close>

definition exDocs :: Folder where
  "exDocs = \<lparr>folder_id = 1, folder_name = ''Docs'', folder_ownerId = 1, folder_parentId = None\<rparr>"

definition ex2024 :: Folder where
  "ex2024 = \<lparr>folder_id = 2, folder_name = ''2024'', folder_ownerId = 1, folder_parentId = Some 1\<rparr>"

definition exPics :: Folder where
  "exPics = \<lparr>folder_id = 3, folder_name = ''Pics'', folder_ownerId = 1, folder_parentId = None\<rparr>"

definition exTmp :: Folder where
  "exTmp = \<lparr>folder_id = 4, folder_name = ''Tmp'', folder_ownerId = 1, folder_parentId = None\<rparr>"

definition exReport :: File where
  "exReport = \<lparr>file_id = 1, file_name = ''report.pdf'', file_mimetype = ''application/pdf'',
               file_size = 10, file_cloudUrl = ''u1'', file_publicId = ''p1'',
               file_folderId = Some 2, file_ownerId = 1\<rparr>"

definition exCat :: File where
  "exCat = \<lparr>file_id = 2, file_name = ''cat.png'', file_mimetype = ''image/png'',
            file_size = 20, file_cloudUrl = ''u2'', file_publicId = ''p2'',
            file_folderId = Some 3, file_ownerId = 1\<rparr>"

definition exLink :: ShareLink where
  "exLink = \<lparr>link_id = 1, link_token = ''tok'', link_folderId = 2,
             link_expiresAt = 3600000, link_createdAt = 0\<rparr>"

definition exDb :: db where
  "exDb = \<lparr>folders = [exDocs, ex2024, exPics, exTmp], files = [exReport, exCat],
           shareLinks = [exLink], folderSeq = 5, fileSeq = 3, linkSeq = 2,
           cloud = [''p1'', ''p2'']\<rparr>"

text \<open>The two uploads behind the files, and answers of the database and of Cloudinary.\<close>

definition upReport :: upload where
  "upReport = \<lparr>up_originalname = ''report.pdf'', up_mimetype = ''application/pdf'',
               up_size = 10, up_path = ''u1'', up_filename = ''p1''\<rparr>"

definition upCat :: upload where
  "upCat = \<lparr>up_originalname = ''cat.png'', up_mimetype = ''image/png'',
            up_size = 20, up_path = ''u2'', up_filename = ''p2''\<rparr>"

text \<open>
  Two time zones: UTC, and a zone two hours ahead of UTC until 27 October 2024,
  01:00 UTC (1729990800000), when its clocks go back from 03:00 to 02:00, and
  one hour ahead from then on; the wall-clock times from 02:00 to 03:00 of that
  day occur twice and are read with the offset before the transition.
\<close>

definition utcZone :: timeZone where
  "utcZone t isUTC = 0"

definition dstZone :: timeZone where
  "dstZone t isUTC =
     (if isUTC then (if t < 1729990800000 then 7200000 else 3600000)
      else (if t < 1729990800000 + 7200000 then 7200000 else 3600000))"

definition neverThrows :: "'a \<Rightarrow> bool" where
  "neverThrows x = False"


declare checkCircularReference.simps [code]
declare climbToShared.simps [code]

section \<open>Lookups\<close>

lemma findFolder_SomeD: "findFolder fs i = Some f \<Longrightarrow> f \<in> set fs \<and> folder_id f = i"
  unfolding findFolder_def by (induction fs) (auto split: if_splits)

lemma findFolder_None_iff: "findFolder fs i = None \<longleftrightarrow> i \<notin> folder_id ` set fs"
  unfolding findFolder_def by (induction fs) auto

lemma findFolder_distinct:
  "distinct (map folder_id fs) \<Longrightarrow> f \<in> set fs \<Longrightarrow> findFolder fs (folder_id f) = Some f"
  unfolding findFolder_def by (induction fs) (auto simp: rev_image_eqI)

lemma verify_InrD:
  "verifyFolderOwnership d userId idParam = Inr folder \<Longrightarrow>
     prismaInt (parseIntStr idParam) = Some (folder_id folder)
     \<and> findFolder (folders d) (folder_id folder) = Some folder
     \<and> folder_ownerId folder = userId"
  unfolding verifyFolderOwnership_def
  by (auto split: option.splits if_splits dest: findFolder_SomeD)

lemma find_map_update:
  "find (\<lambda>f. folder_id f = i) fs = Some f \<Longrightarrow> folder_id u = i \<Longrightarrow>
   find (\<lambda>f. folder_id f = i) (map (\<lambda>f. if folder_id f = i then u else f) fs) = Some u"
  by (induction fs) (auto split: if_splits)

section \<open>The example database is reachable\<close>

lemma reachable_exDb: "reachable exDb"
proof -
  define d1 where "d1 = emptyDb\<lparr>folders := [exDocs], folderSeq := 2\<rparr>"
  define d2 where "d2 = emptyDb\<lparr>folders := [exDocs, ex2024], folderSeq := 3\<rparr>"
  define d3 where "d3 = emptyDb\<lparr>folders := [exDocs, ex2024, exPics], folderSeq := 4\<rparr>"
  define d4 where "d4 = emptyDb\<lparr>folders := [exDocs, ex2024, exPics, exTmp], folderSeq := 5\<rparr>"
  define d5 where "d5 = d4\<lparr>files := [exReport], fileSeq := 2, cloud := [''p1'']\<rparr>"
  define d6 where "d6 = d4\<lparr>files := [exReport, exCat], fileSeq := 3, cloud := [''p1'', ''p2'']\<rparr>"
  have s1: "createFolder emptyDb 1 (JStr ''Docs'') JUndefined = (Inr exDocs, d1)"
    unfolding d1_def by code_simp
  have s2: "createFolder d1 1 (JStr ''2024'') (JNum 1) = (Inr ex2024, d2)"
    unfolding d1_def d2_def by code_simp
  have s3: "createFolder d2 1 (JStr ''Pics'') JNull = (Inr exPics, d3)"
    unfolding d2_def d3_def by code_simp
  have s4: "createFolder d3 1 (JStr ''Tmp'') JNull = (Inr exTmp, d4)"
    unfolding d3_def d4_def by code_simp
  have s5: "uploadFiles neverThrows neverThrows d4 1 (JStr ''2'') [upReport]
              = (Inr \<lparr>resp_files = [exReport], resp_uploadedCount = 1, resp_totalSize = 10\<rparr>, d5)"
    unfolding d4_def d5_def by code_simp
  have s6: "uploadFiles neverThrows neverThrows d5 1 (JNum 3) [upCat]
              = (Inr \<lparr>resp_files = [exCat], resp_uploadedCount = 1, resp_totalSize = 20\<rparr>, d6)"
    unfolding d4_def d5_def d6_def by code_simp
  have s7: "createShareLink utcZone d6 0 0 ''tok'' 1 ''2'' (JStr ''1h'') = (Inr exLink, exDb)"
    unfolding d4_def d6_def by code_simp
  note r = reachable.intros
  show ?thesis
    by (rule r(8) [OF r(5) [OF r(5) [OF r(2) [OF r(2) [OF r(2) [OF r(2) [OF r(1) s1] s2] s3] s4] s5] s6] s7])
qed

section \<open>Expiry of a share link\<close>

text \<open>
  Claim C2, as the code has it: a stored share link resolves while \<open>now \<le> expiresAt\<close>
  and fails with \<open>Expired\<close> once \<open>now > expiresAt\<close>; at the instant
  \<open>now = expiresAt\<close> the link still resolves.
\<close>

theorem resolveShare_expiry:
  "findLinkByToken (shareLinks d) token = Some l \<Longrightarrow>
   resolveShare d now token = (if now \<le> link_expiresAt l then Inr l else Inl Expired)"
  by (simp add: resolveShare_def)

text \<open>The link of the example, one millisecond before, at and after its expiry.\<close>

theorem resolveShare_expiry_witness:
  "findLinkByToken (shareLinks exDb) ''tok'' = Some exLink
   \<and> resolveShare exDb 3599999 ''tok'' = Inr exLink
   \<and> resolveShare exDb 3600000 ''tok'' = Inr exLink
   \<and> resolveShare exDb 3600001 ''tok'' = Inl Expired"
proof -
  have h: "findLinkByToken (shareLinks exDb) ''tok'' = Some exLink"
    by code_simp
  show ?thesis
    using h resolveShare_expiry [OF h, of 3599999] resolveShare_expiry [OF h, of 3600000]
      resolveShare_expiry [OF h, of 3600001]
    by (simp add: exLink_def)
qed

text \<open>
  Claim C2 as stated wants \<open>Expired\<close> at \<open>now = expiresAt\<close>; the link of the
  example, which expires at 3600000, resolves at 3600000.
\<close>

theorem resolveShare_boundary_counterexample:
  "link_expiresAt exLink = 3600000 \<and> resolveShare exDb 3600000 ''tok'' = Inr exLink"
  by code_simp

section \<open>Renaming a folder without naming its parent\<close>

text \<open>
  Claim C10, as the code has it: an update whose \<open>parentId\<close> is absent, \<open>null\<close> or
  the empty string never leaves the parent of a nested folder in place when it
  succeeds: it stores the new name and a null parent, so that the folder is then a
  root folder, wherever it was before. It succeeds when the requester owns the
  folder, the name passes the validation and holds no NUL, and no other root folder
  of the owner bears the name. It fails with the error of the ownership check, with
  the error of the validation, with 500 for a name with a NUL, and with
  \<open>DuplicateName\<close> when another root folder of the owner bears the name; whenever
  it fails the database is what it was, and the folder keeps its parent.
\<close>

theorem updateFolder_without_parentId:
  assumes "parentId = JUndefined \<or> parentId = JNull \<or> parentId = JStr []"
  shows "updateFolder d userId idParam name parentId =
           (case verifyFolderOwnership d userId idParam of
              Inl e \<Rightarrow> Some (Inl e, d)
            | Inr folder \<Rightarrow>
                (case validateName name of
                   Inl e \<Rightarrow> Some (Inl e, d)
                 | Inr nm \<Rightarrow>
                     if hasNul nm then Some (Inl ServerError, d)
                     else if siblingNamed (folders d) nm userId None (Some (folder_id folder))
                     then Some (Inl DuplicateName, d)
                     else Some (Inr (folder\<lparr>folder_name := nm, folder_parentId := None\<rparr>),
                                d\<lparr>folders :=
                                    map (\<lambda>f. if folder_id f = folder_id folder
                                              then folder\<lparr>folder_name := nm, folder_parentId := None\<rparr>
                                              else f) (folders d)\<rparr>)))
         \<and> (verifyFolderOwnership d userId idParam = Inr folder' \<longrightarrow>
              findFolder (map (\<lambda>f. if folder_id f = folder_id folder'
                                    then folder'\<lparr>folder_name := nm', folder_parentId := None\<rparr>
                                    else f) (folders d)) (folder_id folder')
                = Some (folder'\<lparr>folder_name := nm', folder_parentId := None\<rparr>))"
proof (intro conjI impI)
  show "updateFolder d userId idParam name parentId =
           (case verifyFolderOwnership d userId idParam of
              Inl e \<Rightarrow> Some (Inl e, d)
            | Inr folder \<Rightarrow>
                (case validateName name of
                   Inl e \<Rightarrow> Some (Inl e, d)
                 | Inr nm \<Rightarrow>
                     if hasNul nm then Some (Inl ServerError, d)
                     else if siblingNamed (folders d) nm userId None (Some (folder_id folder))
                     then Some (Inl DuplicateName, d)
                     else Some (Inr (folder\<lparr>folder_name := nm, folder_parentId := None\<rparr>),
                                d\<lparr>folders :=
                                    map (\<lambda>f. if folder_id f = folder_id folder
                                              then folder\<lparr>folder_name := nm, folder_parentId := None\<rparr>
                                              else f) (folders d)\<rparr>)))"
  proof (cases "verifyFolderOwnership d userId idParam")
    case (Inl e)
    then show ?thesis by (simp add: updateFolder_def)
  next
    case (Inr folder)
    note v = verify_InrD [OF Inr]
    show ?thesis
    proof (cases "validateName name")
      case (Inl e)
      then show ?thesis using Inr v by (simp add: updateFolder_def)
    next
      case nm: (Inr nm)
      from assms show ?thesis
      proof (elim disjE)
        assume "parentId = JUndefined"
        then show ?thesis using Inr v nm by (simp add: updateFolder_def Let_def)
      next
        assume "parentId = JNull"
        then show ?thesis using Inr v nm by (simp add: updateFolder_def Let_def)
      next
        assume "parentId = JStr []"
        then show ?thesis using Inr v nm by (simp add: updateFolder_def Let_def)
      qed
    qed
  qed
next
  assume a: "verifyFolderOwnership d userId idParam = Inr folder'"
  note v = verify_InrD [OF a]
  show "findFolder (map (\<lambda>f. if folder_id f = folder_id folder'
                                    then folder'\<lparr>folder_name := nm', folder_parentId := None\<rparr>
                                    else f) (folders d)) (folder_id folder')
                = Some (folder'\<lparr>folder_name := nm', folder_parentId := None\<rparr>)"
    using v unfolding findFolder_def by (intro find_map_update) simp_all
qed

text \<open>
  Folder 2 of the example, inside folder 1, renamed to \<^verbatim>\<open>2025\<close>: it is a root folder
  afterwards.
\<close>

theorem updateFolder_without_parentId_witness:
  "folder_parentId ex2024 = Some 1
   \<and> updateFolder exDb 1 ''2'' (JStr ''2025'') JUndefined =
       Some (Inr (ex2024\<lparr>folder_name := ''2025'', folder_parentId := None\<rparr>),
             exDb\<lparr>folders := [exDocs, ex2024\<lparr>folder_name := ''2025'', folder_parentId := None\<rparr>,
                                exPics, exTmp]\<rparr>)
   \<and> findFolder [exDocs, ex2024\<lparr>folder_name := ''2025'', folder_parentId := None\<rparr>, exPics, exTmp] 2
       = Some (ex2024\<lparr>folder_name := ''2025'', folder_parentId := None\<rparr>)"
proof -
  have h0: "JUndefined = JUndefined \<or> JUndefined = JNull \<or> JUndefined = JStr []" by simp
  have h1: "verifyFolderOwnership exDb 1 ''2'' = Inr ex2024" by code_simp
  have h2: "validateName (JStr ''2025'') = Inr ''2025''" by code_simp
  have h3: "\<not> hasNul ''2025''" by code_simp
  have h4: "\<not> siblingNamed (folders exDb) ''2025'' 1 None (Some (folder_id ex2024))"
    by code_simp
  have h5: "folder_id ex2024 = 2" "folder_parentId ex2024 = Some 1" by (simp_all add: ex2024_def)
  have h6: "map (\<lambda>f. if folder_id f = 2
                      then ex2024\<lparr>folder_name := ''2025'', folder_parentId := None\<rparr> else f)
              (folders exDb)
            = [exDocs, ex2024\<lparr>folder_name := ''2025'', folder_parentId := None\<rparr>, exPics, exTmp]"
    by (simp add: exDb_def exDocs_def ex2024_def exPics_def exTmp_def)
  show ?thesis
    using updateFolder_without_parentId [OF h0, of exDb 1 "''2''" "JStr ''2025''" ex2024 "''2025''"]
      h1 h2 h3 h4 h5 h6
    by simp
qed

text \<open>
  Claim C10 as stated has every such request set the parent to null; folder 2 of
  the example, inside folder 1, renamed to \<^verbatim>\<open>Pics\<close>, the name of root folder 3, is
  refused, and folder 2 stays inside folder 1.
\<close>

theorem updateFolder_rename_counterexample:
  "updateFolder exDb 1 ''2'' (JStr ''Pics'') JUndefined = Some (Inl DuplicateName, exDb)
   \<and> findFolder (folders exDb) 2 = Some ex2024 \<and> folder_parentId ex2024 = Some 1"
  by code_simp

section \<open>Expiry and creation time of a new share link\<close>

lemma digitVal_nonneg: "isDigit c \<Longrightarrow> 0 \<le> digitVal c"
  by (simp add: isDigit_def digitVal_def)

lemma digitVal_zero_iff: "isDigit c \<Longrightarrow> digitVal c = 0 \<longleftrightarrow> c = CHR ''0''"
proof -
  have "of_char (CHR ''0'') = (48::nat)" by simp
  then have "of_char c = (48::nat) \<longleftrightarrow> c = CHR ''0''"
    by (metis of_char_eq_iff)
  then show ?thesis unfolding digitVal_def by auto
qed

lemma foldl_digits_ge:
  "list_all isDigit ds \<Longrightarrow> 0 \<le> a \<Longrightarrow> a \<le> foldl (\<lambda>a c. 10 * a + digitVal c) a ds"
proof (induction ds arbitrary: a)
  case Nil
  then show ?case by simp
next
  case (Cons c ds)
  have "0 \<le> digitVal c" using Cons.prems by (simp add: digitVal_nonneg)
  then have "a \<le> 10 * a + digitVal c" "0 \<le> 10 * a + digitVal c" using Cons.prems by auto
  then show ?case using Cons.IH [of "10 * a + digitVal c"] Cons.prems by simp
qed

lemma foldl_digits_zero:
  "list_all (\<lambda>c. c = CHR ''0'') ds \<Longrightarrow> foldl (\<lambda>a c. 10 * a + digitVal c) 0 ds = 0"
  by (induction ds) (auto simp: digitVal_def)

lemma foldl_digits_pos:
  "list_all isDigit ds \<Longrightarrow> \<not> list_all (\<lambda>c. c = CHR ''0'') ds \<Longrightarrow> 0 \<le> a
    \<Longrightarrow> 1 \<le> foldl (\<lambda>a c. 10 * a + digitVal c) a ds"
proof (induction ds arbitrary: a)
  case Nil
  then show ?case by simp
next
  case (Cons c ds)
  have c: "0 \<le> digitVal c" using Cons.prems by (simp add: digitVal_nonneg)
  show ?case
  proof (cases "c = CHR ''0''")
    case True
    then show ?thesis using Cons.IH [of "10 * a + digitVal c"] Cons.prems c by simp
  next
    case False
    then have "1 \<le> digitVal c" using Cons.prems digitVal_zero_iff [of c] c by simp
    then have "1 \<le> 10 * a + digitVal c" using Cons.prems by simp
    moreover have "10 * a + digitVal c \<le> foldl (\<lambda>a c. 10 * a + digitVal c) (10 * a + digitVal c) ds"
      using Cons.prems c by (intro foldl_digits_ge) auto
    ultimately show ?thesis by simp
  qed
qed

lemma time_fields:
  "MakeDate (Day t) (MakeTime (HourFromTime t + n) (MinFromTime t) (SecFromTime t) (msFromTime t))
     = t + n * 3600000"
proof -
  define s where "s = t div 1000"
  define m where "m = s div 60"
  define h where "h = m div 60"
  have m: "t div 60000 = m"
    using zdiv_zmult2_eq [of 60 t 1000] by (simp add: m_def s_def)
  have h: "t div 3600000 = h"
    using zdiv_zmult2_eq [of 60 t 60000] m by (simp add: h_def)
  have d: "t div 86400000 = h div 24"
    using zdiv_zmult2_eq [of 24 t 3600000] h by simp
  define a b c e g where "a = t mod 1000" and "b = s mod 60" and "c = m mod 60"
    and "e = h mod 24" and "g = h div 24"
  have e1: "t = 1000 * s + a" by (simp add: s_def a_def)
  have e2: "s = 60 * m + b" by (simp add: m_def b_def)
  have e3: "m = 60 * h + c" by (simp add: h_def c_def)
  have e4: "h = 24 * g + e" by (simp add: e_def g_def)
  have "g * 86400000 + ((e + n) * 3600000 + c * 60000 + b * 1000 + a) = t + n * 3600000"
    unfolding e1 e2 e3 e4 by (simp add: algebra_simps)
  then have "(h div 24) * 86400000 + ((h mod 24 + n) * 3600000 + (m mod 60) * 60000
          + (s mod 60) * 1000 + t mod 1000) = t + n * 3600000"
    by (simp only: a_def b_def c_def e_def g_def)
  then show ?thesis
    by (simp add: MakeDate_def MakeTime_def Day_def HourFromTime_def MinFromTime_def
        SecFromTime_def msFromTime_def m h d s_def)
qed

lemma setHours_getHours:
  "setHours localTZA t (getHours localTZA t + n)
     = timeClip (UTC localTZA (LocalTime localTZA t + n * 3600000))"
  by (simp add: setHours_def getHours_def Let_def time_fields)

lemma setDate_getDate:
  "setDate localTZA t (getDate localTZA t + n)
     = timeClip (UTC localTZA (LocalTime localTZA t + n * 86400000))"
proof -
  have "MakeDate (Day x - (DateFromTime x - 1) + (DateFromTime x + n) - 1) (TimeWithinDay x)
          = x + n * 86400000" for x
    by (simp add: MakeDate_def Day_def TimeWithinDay_def algebra_simps)
  then show ?thesis by (simp add: setDate_def getDate_def Let_def)
qed

lemma durationMatch_SomeD:
  "durationMatch s = Some (v, u) \<Longrightarrow> list_all isDigit v \<and> (u = CHR ''d'' \<or> u = CHR ''h'')"
  by (auto simp: durationMatch_def split: if_splits)

lemma expiryOf_eq:
  "expiryOf localTZA now dur
     = timeClip (UTC localTZA (LocalTime localTZA now + durationMs (JStr dur)))"
proof (cases "durationMatch dur")
  case None
  then show ?thesis by (simp add: expiryOf_def durationMs_def setDate_getDate)
next
  case (Some vu)
  obtain v u where vu: "vu = (v, u)" by (cases vu)
  from durationMatch_SomeD [OF Some [unfolded vu]] have "u = CHR ''d'' \<or> u = CHR ''h''" by simp
  then show ?thesis
  proof
    assume "u = CHR ''d''"
    then show ?thesis using Some vu
      by (simp add: expiryOf_def durationMs_def Let_def setDate_getDate)
  next
    assume "u = CHR ''h''"
    then show ?thesis using Some vu
      by (simp add: expiryOf_def durationMs_def Let_def setHours_getHours)
  qed
qed

lemma durationMs_cases:
  "if zeroValued duration then durationMs duration = 0 else 3600000 \<le> durationMs duration"
proof (cases duration)
  case (JStr dur)
  show ?thesis
  proof (cases "durationMatch dur")
    case None
    then show ?thesis using JStr by (simp add: zeroValued_def durationMs_def)
  next
    case (Some vu)
    obtain v u where vu: "vu = (v, u)" by (cases vu)
    from durationMatch_SomeD [OF Some [unfolded vu]] have dig: "list_all isDigit v" by simp
    let ?n = "digitsValue 10 digitVal v"
    show ?thesis
    proof (cases "list_all (\<lambda>c. c = CHR ''0'') v")
      case True
      then have "?n = 0" by (simp add: digitsValue_def foldl_digits_zero)
      then show ?thesis using True Some vu JStr by (simp add: zeroValued_def durationMs_def)
    next
      case False
      then have "1 \<le> ?n" using dig by (simp add: digitsValue_def foldl_digits_pos)
      then have "3600000 \<le> ?n * (if u = CHR ''h'' then 3600000 else 86400000)" by auto
      then show ?thesis using False Some vu JStr by (simp add: zeroValued_def durationMs_def)
    qed
  qed
qed (simp_all add: zeroValued_def durationMs_def)

text \<open>
  Claim C9, as the code has it: the link a successful request stores is created at
  the time of the database, and it expires at the instant that the time zone of
  the server gives to the wall-clock time of the request plus the duration: \<open>n\<close>
  hours or \<open>n\<close> days, seven days when the duration is absent or malformed. Where
  the offset from UTC of that wall-clock time is the offset at the request, as
  it is when no transition of the zone lies between them, the link expires at the
  time of the request plus the duration. For a duration that is absent, malformed
  or has a value that is not zero, that is at least one hour after the request,
  and so after \<open>createdAt\<close> when the database inserts the row less than an hour
  after the request read its clock. For a zero value the link expires at the time
  of the request.
\<close>

theorem createShareLink_expiry:
  assumes "createShareLink localTZA d now dbNow uuid userId idParam duration = (Inr l, d')"
  shows "l \<in> set (shareLinks d') \<and> link_createdAt l = dbNow
         \<and> link_expiresAt l = UTC localTZA (LocalTime localTZA now + durationMs duration)
         \<and> (if zeroValued duration then durationMs duration = 0
            else 3600000 \<le> durationMs duration)
         \<and> (localTZA (LocalTime localTZA now + durationMs duration) False = localTZA now True
              \<longrightarrow> link_expiresAt l = now + durationMs duration
                 \<and> (if zeroValued duration then link_expiresAt l = now
                    else now + 3600000 \<le> link_expiresAt l
                         \<and> (dbNow < now + 3600000 \<longrightarrow> link_createdAt l < link_expiresAt l)))"
proof -
  obtain dur where dur: "(case duration of JUndefined \<Rightarrow> Some ''7d'' | JStr s \<Rightarrow> Some s | _ \<Rightarrow> None) = Some dur"
    and e: "expiryOf localTZA now dur = Some (link_expiresAt l)"
    and l: "l \<in> set (shareLinks d')" "link_createdAt l = dbNow"
    using assms unfolding createShareLink_def
    by (auto simp: Let_def split: option.splits if_splits)
  have "durationMs (JStr ''7d'') = 7 * 86400000" by code_simp
  then have m: "durationMs (JStr dur) = durationMs duration"
    using dur by (cases duration) (simp_all add: durationMs_def)
  have x: "link_expiresAt l = UTC localTZA (LocalTime localTZA now + durationMs duration)"
    using e unfolding expiryOf_eq m by (simp add: timeClip_def split: if_splits)
  note c = durationMs_cases [of duration]
  have y: "link_expiresAt l = now + durationMs duration"
    if "localTZA (LocalTime localTZA now + durationMs duration) False = localTZA now True"
    using that x by (simp add: UTC_def LocalTime_def)
  show ?thesis
  proof (cases "zeroValued duration")
    case True
    then show ?thesis using x y c l by simp
  next
    case False
    then show ?thesis using x y c l by auto
  qed
qed

text \<open>
  A link for two days on folder 1 of the example, asked for in the second zone some
  days after its clocks went back.
\<close>

theorem createShareLink_expiry_witness:
  "createShareLink dstZone exDb 1730000000000 1730000000002 ''new'' 1 ''1'' (JStr ''2d'')
     = (Inr \<lparr>link_id = 2, link_token = ''new'', link_folderId = 1,
              link_expiresAt = 1730172800000, link_createdAt = 1730000000002\<rparr>,
        exDb\<lparr>shareLinks := [exLink, \<lparr>link_id = 2, link_token = ''new'', link_folderId = 1,
              link_expiresAt = 1730172800000, link_createdAt = 1730000000002\<rparr>], linkSeq := 3\<rparr>)
   \<and> \<not> zeroValued (JStr ''2d'') \<and> durationMs (JStr ''2d'') = 2 * 86400000
   \<and> dstZone (LocalTime dstZone 1730000000000 + durationMs (JStr ''2d'')) False
       = dstZone 1730000000000 True
   \<and> (1730000000002 :: int) < 1730000000000 + 3600000
   \<and> (1730000000002 :: int) < 1730172800000"
proof -
  have h: "createShareLink dstZone exDb 1730000000000 1730000000002 ''new'' 1 ''1'' (JStr ''2d'')
     = (Inr \<lparr>link_id = 2, link_token = ''new'', link_folderId = 1,
              link_expiresAt = 1730172800000, link_createdAt = 1730000000002\<rparr>,
        exDb\<lparr>shareLinks := [exLink, \<lparr>link_id = 2, link_token = ''new'', link_folderId = 1,
              link_expiresAt = 1730172800000, link_createdAt = 1730000000002\<rparr>], linkSeq := 3\<rparr>)"
    by code_simp
  have z: "\<not> zeroValued (JStr ''2d'')" by code_simp
  have m: "durationMs (JStr ''2d'') = 2 * 86400000" by code_simp
  have o: "dstZone (LocalTime dstZone 1730000000000 + durationMs (JStr ''2d'')) False
             = dstZone 1730000000000 True"
    unfolding m by code_simp
  show ?thesis using createShareLink_expiry [OF h] h z m o by simp
qed

text \<open>
  Claim C9 as stated wants \<open>expiresAt > createdAt\<close> for zero values too; in the
  zone UTC, the link stored for \<^verbatim>\<open>0h\<close> at time 5000 has both at 5000.
\<close>

theorem createShareLink_zero_counterexample:
  "createShareLink utcZone exDb 5000 5000 ''new'' 1 ''1'' (JStr ''0h'')
     = (Inr \<lparr>link_id = 2, link_token = ''new'', link_folderId = 1,
              link_expiresAt = 5000, link_createdAt = 5000\<rparr>,
        exDb\<lparr>shareLinks := [exLink, \<lparr>link_id = 2, link_token = ''new'', link_folderId = 1,
              link_expiresAt = 5000, link_createdAt = 5000\<rparr>], linkSeq := 3\<rparr>)"
  by code_simp

text \<open>
  Across a transition the wall clock and the instants part: in the second zone, at
  02:30 after the clocks went back (01:30 UTC), the wall-clock time of a request
  for \<^verbatim>\<open>0h\<close> is read as the first 02:30, one hour before the request; at 02:30
  before they went back (00:30 UTC), \<^verbatim>\<open>1h\<close> gives 03:30, two hours later, and
  \<^verbatim>\<open>1d\<close> gives 02:30 of the next day, 25 hours later.
\<close>

lemma expiryOf_dstZone:
  "expiryOf dstZone (1729990800000 + 1800000) ''0h'' = Some (1729990800000 + 1800000 - 3600000)
   \<and> expiryOf dstZone (1729990800000 - 1800000) ''1h''
       = Some (1729990800000 - 1800000 + 2 * 3600000)
   \<and> expiryOf dstZone (1729990800000 - 1800000) ''1d''
       = Some (1729990800000 - 1800000 + 25 * 3600000)"
  by code_simp

section \<open>Creating a folder twice\<close>

lemma siblingNamed_iff:
  "siblingNamed fs nm ownerId pid excluded \<longleftrightarrow>
     (\<exists>f \<in> set fs. folder_name f = nm \<and> folder_ownerId f = ownerId \<and> folder_parentId f = pid
         \<and> Some (folder_id f) \<noteq> excluded)"
  unfolding siblingNamed_def by (auto simp: find_None_iff)

lemma createFolder_InrD:
  assumes "createFolder d ownerId name parentId = (Inr f, d')"
  shows "\<exists>nm. validateName name = Inr nm
          \<and> f = \<lparr>folder_id = folderSeq d, folder_name = nm, folder_ownerId = ownerId,
                  folder_parentId = (if truthy parentId then prismaInt (parseInt parentId) else None)\<rparr>
          \<and> (truthy parentId \<longrightarrow> (\<exists>p g. prismaInt (parseInt parentId) = Some p
                 \<and> findFolder (folders d) p = Some g \<and> folder_ownerId g = ownerId))
          \<and> \<not> hasNul nm
          \<and> \<not> siblingNamed (folders d) nm ownerId (folder_parentId f) None
          \<and> folderSeq d \<le> 2147483647
          \<and> d' = d\<lparr>folders := folders d @ [f], folderSeq := folderSeq d + 1\<rparr>"
  using assms unfolding createFolder_def
  by (auto simp: Let_def split: sum.splits option.splits if_splits)

lemma findFolder_append:
  "findFolder (fs @ [g]) i =
     (case findFolder fs i of Some f \<Rightarrow> Some f
      | None \<Rightarrow> if folder_id g = i then Some g else None)"
  unfolding findFolder_def by (induction fs) auto

text \<open>
  Claim C7, as the code has it. A successful create stores the owner, the parent
  and the name trimmed. After it, the same request again fails with
  \<open>DuplicateName\<close> and changes nothing, and so does every request of the owner
  with a valid name and an accepted parent that comes to the same stored name and
  parent. A request of the owner with a valid name and a parent that is absent or
  a folder of the owner in the new state (the new folder among them), whose stored
  name or parent differs, succeeds, unless the name holds a NUL (500), another
  folder of the owner already bears the name under that parent
  (\<open>DuplicateName\<close>), or the id sequence is used up (500).
\<close>

theorem createFolder_duplicate:
  assumes first: "createFolder d ownerId name parentId = (Inr f, d1)"
  shows "createFolder d1 ownerId name parentId = (Inl DuplicateName, d1)
         \<and> validateName name = Inr (folder_name f) \<and> folder_ownerId f = ownerId
         \<and> folder_parentId f = (if truthy parentId then prismaInt (parseInt parentId) else None)
         \<and> (validateName name2 = Inr nm2
              \<and> (case pid2 of
                    None \<Rightarrow> \<not> truthy parentId2
                  | Some p \<Rightarrow> truthy parentId2 \<and> prismaInt (parseInt parentId2) = Some p
                       \<and> (\<exists>g. findFolder (folders d1) p = Some g \<and> folder_ownerId g = ownerId))
              \<longrightarrow> createFolder d1 ownerId name2 parentId2
                    = (if hasNul nm2 then (Inl ServerError, d1)
                       else if nm2 = folder_name f \<and> pid2 = folder_parentId f
                       then (Inl DuplicateName, d1)
                       else if siblingNamed (folders d) nm2 ownerId pid2 None
                       then (Inl DuplicateName, d1)
                       else if folderSeq d1 > 2147483647 then (Inl ServerError, d1)
                       else (Inr \<lparr>folder_id = folderSeq d1, folder_name = nm2,
                                   folder_ownerId = ownerId, folder_parentId = pid2\<rparr>,
                             d1\<lparr>folders := folders d1 @ [\<lparr>folder_id = folderSeq d1,
                                    folder_name = nm2, folder_ownerId = ownerId,
                                    folder_parentId = pid2\<rparr>],
                                folderSeq := folderSeq d1 + 1\<rparr>)))"
proof -
  from createFolder_InrD [OF first] obtain nm where
    nm: "validateName name = Inr nm"
    and f: "f = \<lparr>folder_id = folderSeq d, folder_name = nm, folder_ownerId = ownerId,
                  folder_parentId = (if truthy parentId then prismaInt (parseInt parentId) else None)\<rparr>"
    and par: "truthy parentId \<longrightarrow> (\<exists>p g. prismaInt (parseInt parentId) = Some p
                 \<and> findFolder (folders d) p = Some g \<and> folder_ownerId g = ownerId)"
    and nul: "\<not> hasNul nm"
    and d1: "d1 = d\<lparr>folders := folders d @ [f], folderSeq := folderSeq d + 1\<rparr>"
    by blast
  have fields: "folder_name f = nm" "folder_ownerId f = ownerId"
    "folder_parentId f = (if truthy parentId then prismaInt (parseInt parentId) else None)"
    using f by simp_all
  have fs: "folders d1 = folders d @ [f]" using d1 by simp
  have sib: "siblingNamed (folders d1) nm' ownerId pid' None
               \<longleftrightarrow> (nm' = folder_name f \<and> pid' = folder_parentId f)
                    \<or> siblingNamed (folders d) nm' ownerId pid' None" for nm' pid'
    unfolding siblingNamed_iff fs using fields(2) by auto
  have same: "createFolder d1 ownerId name parentId = (Inl DuplicateName, d1)"
  proof (cases "truthy parentId")
    case False
    then show ?thesis using nm nul sib [of nm None] fields unfolding createFolder_def by simp
  next
    case True
    then obtain p g where p: "prismaInt (parseInt parentId) = Some p"
      "findFolder (folders d) p = Some g" "folder_ownerId g = ownerId" using par by blast
    then have "findFolder (folders d1) p = Some g" using fs by (simp add: findFolder_append)
    then show ?thesis using True nm nul sib [of nm "Some p"] fields p
      unfolding createFolder_def by simp
  qed
  have other: "createFolder d1 ownerId name2 parentId2
                 = (if hasNul nm2 then (Inl ServerError, d1)
                    else if nm2 = folder_name f \<and> pid2 = folder_parentId f
                    then (Inl DuplicateName, d1)
                    else if siblingNamed (folders d) nm2 ownerId pid2 None
                    then (Inl DuplicateName, d1)
                    else if folderSeq d1 > 2147483647 then (Inl ServerError, d1)
                    else (Inr \<lparr>folder_id = folderSeq d1, folder_name = nm2,
                                folder_ownerId = ownerId, folder_parentId = pid2\<rparr>,
                          d1\<lparr>folders := folders d1 @ [\<lparr>folder_id = folderSeq d1,
                                 folder_name = nm2, folder_ownerId = ownerId,
                                 folder_parentId = pid2\<rparr>],
                             folderSeq := folderSeq d1 + 1\<rparr>))"
    if n2: "validateName name2 = Inr nm2"
      and p2: "case pid2 of
                 None \<Rightarrow> \<not> truthy parentId2
               | Some p \<Rightarrow> truthy parentId2 \<and> prismaInt (parseInt parentId2) = Some p
                    \<and> (\<exists>g. findFolder (folders d1) p = Some g \<and> folder_ownerId g = ownerId)"
  proof (cases pid2)
    case None
    then have "\<not> truthy parentId2" using p2 by simp
    then show ?thesis using n2 None sib [of nm2 None]
      unfolding createFolder_def by (simp add: Let_def)
  next
    case (Some p)
    then obtain g where g: "truthy parentId2" "prismaInt (parseInt parentId2) = Some p"
      "findFolder (folders d1) p = Some g" "folder_ownerId g = ownerId"
      using p2 by auto
    then show ?thesis using n2 Some sib [of nm2 "Some p"]
      unfolding createFolder_def by (simp add: Let_def)
  qed
  show ?thesis using same nm fields other by simp
qed

text \<open>
  \<^verbatim>\<open>Docs\<close> created in the empty database, then again, then again with white space
  around the name and \<^verbatim>\<open>parentId\<close> absent instead of \<^verbatim>\<open>null\<close>, then inside the new
  folder, then \<^verbatim>\<open>Pics\<close> beside it.
\<close>

theorem createFolder_duplicate_witness:
  "createFolder emptyDb 1 (JStr ''Docs'') JNull
     = (Inr exDocs, emptyDb\<lparr>folders := [exDocs], folderSeq := 2\<rparr>)
   \<and> createFolder (emptyDb\<lparr>folders := [exDocs], folderSeq := 2\<rparr>) 1 (JStr ''Docs'') JNull
     = (Inl DuplicateName, emptyDb\<lparr>folders := [exDocs], folderSeq := 2\<rparr>)
   \<and> createFolder (emptyDb\<lparr>folders := [exDocs], folderSeq := 2\<rparr>) 1 (JStr '' Docs '') JUndefined
     = (Inl DuplicateName, emptyDb\<lparr>folders := [exDocs], folderSeq := 2\<rparr>)
   \<and> createFolder (emptyDb\<lparr>folders := [exDocs], folderSeq := 2\<rparr>) 1 (JStr ''Docs'') (JNum 1)
     = (Inr \<lparr>folder_id = 2, folder_name = ''Docs'', folder_ownerId = 1, folder_parentId = Some 1\<rparr>,
        emptyDb\<lparr>folders := [exDocs, \<lparr>folder_id = 2, folder_name = ''Docs'', folder_ownerId = 1,
                                      folder_parentId = Some 1\<rparr>], folderSeq := 3\<rparr>)
   \<and> createFolder (emptyDb\<lparr>folders := [exDocs], folderSeq := 2\<rparr>) 1 (JStr ''Pics'') JNull
     = (Inr (exPics\<lparr>folder_id := 2\<rparr>),
        emptyDb\<lparr>folders := [exDocs, exPics\<lparr>folder_id := 2\<rparr>], folderSeq := 3\<rparr>)"
proof -
  let ?d1 = "emptyDb\<lparr>folders := [exDocs], folderSeq := 2\<rparr>"
  have h1: "createFolder emptyDb 1 (JStr ''Docs'') JNull = (Inr exDocs, ?d1)"
    by code_simp
  have n1: "validateName (JStr '' Docs '') = Inr ''Docs''" by code_simp
  have n2: "validateName (JStr ''Docs'') = Inr ''Docs''" by code_simp
  have n3: "validateName (JStr ''Pics'') = Inr ''Pics''" by code_simp
  have p1: "\<not> truthy JUndefined" "\<not> truthy JNull" by simp_all
  have p2: "truthy (JNum 1) \<and> prismaInt (parseInt (JNum 1)) = Some 1
            \<and> (\<exists>g. findFolder (folders ?d1) 1 = Some g \<and> folder_ownerId g = 1)"
    by (simp add: prismaInt_def findFolder_def exDocs_def)
  have e: "folder_name exDocs = ''Docs''" "folder_parentId exDocs = None"
    "\<not> hasNul ''Docs''" "\<not> hasNul ''Pics''"
    "\<not> siblingNamed (folders emptyDb) ''Docs'' 1 (Some 1) None"
    "\<not> siblingNamed (folders emptyDb) ''Pics'' 1 None None"
    "exPics\<lparr>folder_id := 2\<rparr>
       = \<lparr>folder_id = 2, folder_name = ''Pics'', folder_ownerId = 1, folder_parentId = None\<rparr>"
    by (simp_all add: exDocs_def exPics_def hasNul_def siblingNamed_def emptyDb_def)
  show ?thesis
    using createFolder_duplicate [OF h1, where ?name2.0 = "JStr '' Docs ''" and ?nm2.0 = "''Docs''"
          and ?pid2.0 = None and ?parentId2.0 = JUndefined]
      createFolder_duplicate [OF h1, where ?name2.0 = "JStr ''Docs''" and ?nm2.0 = "''Docs''"
          and ?pid2.0 = "Some 1" and ?parentId2.0 = "JNum 1"]
      createFolder_duplicate [OF h1, where ?name2.0 = "JStr ''Pics''" and ?nm2.0 = "''Pics''"
          and ?pid2.0 = None and ?parentId2.0 = JNull]
      h1 n1 n2 n3 p1 p2 e
    by (simp add: emptyDb_def)
qed

text \<open>
  Claim C7 as stated lets every second create with another name or another parent
  succeed. In the example, after \<^verbatim>\<open>New\<close> is created beside \<^verbatim>\<open>Docs\<close>, \<^verbatim>\<open>Pics\<close> and
  \<^verbatim>\<open>Tmp\<close>, a second create with another name fails when that name holds a NUL and
  when it is \<^verbatim>\<open>Pics\<close>, and a second create of \<^verbatim>\<open>New\<close> under another parent fails
  when there is no folder 99; once the sequence has given out its last id, a
  second create fails whatever its name.
\<close>

theorem createFolder_second_counterexample:
  "createFolder exDb 1 (JStr ''New'') JNull
     = (Inr \<lparr>folder_id = 5, folder_name = ''New'', folder_ownerId = 1, folder_parentId = None\<rparr>,
        exDb\<lparr>folders := [exDocs, ex2024, exPics, exTmp,
               \<lparr>folder_id = 5, folder_name = ''New'', folder_ownerId = 1, folder_parentId = None\<rparr>],
             folderSeq := 6\<rparr>)
   \<and> createFolder (exDb\<lparr>folders := [exDocs, ex2024, exPics, exTmp,
               \<lparr>folder_id = 5, folder_name = ''New'', folder_ownerId = 1, folder_parentId = None\<rparr>],
             folderSeq := 6\<rparr>) 1 (JStr [CHR ''N'', CHR 0x00]) JNull
     = (Inl ServerError, exDb\<lparr>folders := [exDocs, ex2024, exPics, exTmp,
               \<lparr>folder_id = 5, folder_name = ''New'', folder_ownerId = 1, folder_parentId = None\<rparr>],
             folderSeq := 6\<rparr>)
   \<and> createFolder (exDb\<lparr>folders := [exDocs, ex2024, exPics, exTmp,
               \<lparr>folder_id = 5, folder_name = ''New'', folder_ownerId = 1, folder_parentId = None\<rparr>],
             folderSeq := 6\<rparr>) 1 (JStr ''Pics'') JNull
     = (Inl DuplicateName, exDb\<lparr>folders := [exDocs, ex2024, exPics, exTmp,
               \<lparr>folder_id = 5, folder_name = ''New'', folder_ownerId = 1, folder_parentId = None\<rparr>],
             folderSeq := 6\<rparr>)
   \<and> createFolder (exDb\<lparr>folders := [exDocs, ex2024, exPics, exTmp,
               \<lparr>folder_id = 5, folder_name = ''New'', folder_ownerId = 1, folder_parentId = None\<rparr>],
             folderSeq := 6\<rparr>) 1 (JStr ''New'') (JNum 99)
     = (Inl ParentNotFound, exDb\<lparr>folders := [exDocs, ex2024, exPics, exTmp,
               \<lparr>folder_id = 5, folder_name = ''New'', folder_ownerId = 1, folder_parentId = None\<rparr>],
             folderSeq := 6\<rparr>)
   \<and> createFolder (exDb\<lparr>folderSeq := 2147483647\<rparr>) 1 (JStr ''New'') JNull
     = (Inr \<lparr>folder_id = 2147483647, folder_name = ''New'', folder_ownerId = 1,
              folder_parentId = None\<rparr>,
        exDb\<lparr>folders := [exDocs, ex2024, exPics, exTmp,
               \<lparr>folder_id = 2147483647, folder_name = ''New'', folder_ownerId = 1,
                folder_parentId = None\<rparr>],
             folderSeq := 2147483648\<rparr>)
   \<and> createFolder (exDb\<lparr>folders := [exDocs, ex2024, exPics, exTmp,
               \<lparr>folder_id = 2147483647, folder_name = ''New'', folder_ownerId = 1,
                folder_parentId = None\<rparr>],
             folderSeq := 2147483648\<rparr>) 1 (JStr ''Newer'') JNull
     = (Inl ServerError, exDb\<lparr>folders := [exDocs, ex2024, exPics, exTmp,
               \<lparr>folder_id = 2147483647, folder_name = ''New'', folder_ownerId = 1,
                folder_parentId = None\<rparr>],
             folderSeq := 2147483648\<rparr>)"
  by code_simp

section \<open>A batch of uploads with failures\<close>

lemma destroyQuietly_fields [simp]:
  "folders (destroyQuietly dt p d) = folders d"
  "files (destroyQuietly dt p d) = files d"
  "shareLinks (destroyQuietly dt p d) = shareLinks d"
  "folderSeq (destroyQuietly dt p d) = folderSeq d"
  "fileSeq (destroyQuietly dt p d) = fileSeq d"
  "linkSeq (destroyQuietly dt p d) = linkSeq d"
  "set (cloud (destroyQuietly dt p d)) = (if dt p then set (cloud d) else set (cloud d) - {p})"
  by (simp_all add: destroyQuietly_def)

lemma destroyAll_fields [simp]:
  "folders (destroyAll dt us d) = folders d"
  "files (destroyAll dt us d) = files d"
  "shareLinks (destroyAll dt us d) = shareLinks d"
  "folderSeq (destroyAll dt us d) = folderSeq d"
  "fileSeq (destroyAll dt us d) = fileSeq d"
  "linkSeq (destroyAll dt us d) = linkSeq d"
  by (induction us arbitrary: d) simp_all






section \<open>The parent relation\<close>

lemma parentOf_SomeD:
  "parentOf fs c = Some p \<Longrightarrow> \<exists>f. findFolder fs c = Some f \<and> folder_parentId f = Some p"
  unfolding parentOf_def by (auto split: option.splits)

lemma parentRel_iff: "(p, c) \<in> parentRel fs \<longleftrightarrow> parentOf fs c = Some p"
  by (simp add: parentRel_def)

lemma parentRel_rowD:
  assumes "(p, c) \<in> parentRel fs"
  shows "\<exists>f \<in> set fs. folder_id f = c \<and> folder_parentId f = Some p"
proof -
  from assms have "parentOf fs c = Some p" by (simp add: parentRel_iff)
  from parentOf_SomeD [OF this]
  obtain f where "findFolder fs c = Some f" "folder_parentId f = Some p" by blast
  then show ?thesis using findFolder_SomeD by blast
qed

lemma parentRel_rowI:
  "distinct (map folder_id fs) \<Longrightarrow> f \<in> set fs \<Longrightarrow> folder_parentId f = Some p
    \<Longrightarrow> (p, folder_id f) \<in> parentRel fs"
  by (simp add: parentRel_iff parentOf_def findFolder_distinct)

lemma finite_parentRel: "finite (parentRel fs)"
proof -
  have "parentRel fs \<subseteq> (\<lambda>f. (the (folder_parentId f), folder_id f)) ` set fs"
  proof
    fix x assume x: "x \<in> parentRel fs"
    obtain p c where pc: "x = (p, c)" by (cases x)
    with x obtain f where "f \<in> set fs" "folder_id f = c" "folder_parentId f = Some p"
      using parentRel_rowD by blast
    then show "x \<in> (\<lambda>f. (the (folder_parentId f), folder_id f)) ` set fs"
      using pc by (intro image_eqI [of _ _ f]) simp_all
  qed
  then show ?thesis by (rule finite_subset) simp
qed

lemma parentRel_unique: "(p, c) \<in> parentRel fs \<Longrightarrow> (q, c) \<in> parentRel fs \<Longrightarrow> p = q"
  by (simp add: parentRel_iff)

lemma above_cases:
  assumes "(a, c) \<in> (parentRel fs)\<^sup>*"
  shows "a = c \<or> (\<exists>p. parentOf fs c = Some p \<and> (a, p) \<in> (parentRel fs)\<^sup>*)"
  using assms by (cases rule: rtrancl.cases) (auto simp: parentRel_iff)

lemma above_root: "parentOf fs c = None \<Longrightarrow> (a, c) \<in> (parentRel fs)\<^sup>* \<Longrightarrow> a = c"
  using above_cases [of a c fs] by simp

lemma above_no_row:
  assumes "c \<notin> folder_id ` set fs" and "(a, c) \<in> (parentRel fs)\<^sup>*"
  shows "a = c"
proof -
  have "findFolder fs c = None" using assms(1) by (simp add: findFolder_None_iff)
  then have "parentOf fs c = None" by (simp add: parentOf_def)
  then show ?thesis using assms(2) by (rule above_root)
qed

lemma above_step:
  assumes "parentOf fs c = Some p"
  shows "(a, c) \<in> (parentRel fs)\<^sup>* \<longleftrightarrow> a = c \<or> (a, p) \<in> (parentRel fs)\<^sup>*"
proof
  assume "(a, c) \<in> (parentRel fs)\<^sup>*"
  then show "a = c \<or> (a, p) \<in> (parentRel fs)\<^sup>*"
    using above_cases [of a c fs] assms by auto
next
  assume "a = c \<or> (a, p) \<in> (parentRel fs)\<^sup>*"
  moreover have "(p, c) \<in> parentRel fs" using assms by (simp add: parentRel_iff)
  ultimately show "(a, c) \<in> (parentRel fs)\<^sup>*"
    by (auto intro: rtrancl_into_rtrancl)
qed

section \<open>The walks upward terminate where no folder is above itself\<close>

lemma checkCircularReference_wf:
  assumes "wf (parentRel fs)" and "(0::int) \<notin> folder_id ` set fs" and "t \<in> folder_id ` set fs"
  shows "checkCircularReference fs (Some c) t = Some ((t, c) \<in> (parentRel fs)\<^sup>*)"
  using assms(1)
proof (induction c rule: wf_induct_rule)
  case (less c)
  show ?case
  proof (cases "findFolder fs c")
    case None
    then have "c \<notin> folder_id ` set fs" by (simp add: findFolder_None_iff)
    then have "(t, c) \<notin> (parentRel fs)\<^sup>*" using assms(3) above_no_row by blast
    then show ?thesis using None by (subst checkCircularReference.simps) simp
  next
    case (Some f)
    then have f: "f \<in> set fs" "folder_id f = c" by (auto dest: findFolder_SomeD)
    then have c0: "c \<noteq> 0" using assms(2) by force
    show ?thesis
    proof (cases "c = t")
      case True
      then show ?thesis using Some f c0 by (subst checkCircularReference.simps) simp
    next
      case False
      show ?thesis
      proof (cases "folder_parentId f")
        case None
        then have "parentOf fs c = None" using Some by (simp add: parentOf_def)
        then have "(t, c) \<notin> (parentRel fs)\<^sup>*" using False above_root by blast
        moreover have "checkCircularReference fs None t = Some False"
          by (subst checkCircularReference.simps) simp
        ultimately show ?thesis using Some f c0 False None
          by (subst checkCircularReference.simps) simp
      next
        case (Some p)
        then have po: "parentOf fs c = Some p" using \<open>findFolder fs c = Some f\<close>
          by (simp add: parentOf_def)
        then have "(p, c) \<in> parentRel fs" by (simp add: parentRel_iff)
        then have "checkCircularReference fs (Some p) t = Some ((t, p) \<in> (parentRel fs)\<^sup>*)"
          by (rule less.IH)
        moreover have "(t, c) \<in> (parentRel fs)\<^sup>* \<longleftrightarrow> (t, p) \<in> (parentRel fs)\<^sup>*"
          using above_step [OF po, of t] False by auto
        ultimately show ?thesis using \<open>findFolder fs c = Some f\<close> f c0 False Some
          by (subst checkCircularReference.simps) simp
      qed
    qed
  qed
qed

lemma climbToShared_wf:
  assumes "wf (parentRel fs)" and "(0::int) \<notin> folder_id ` set fs" and "t \<in> folder_id ` set fs"
  shows "climbToShared fs (Some c) t = Some ((t, c) \<in> (parentRel fs)\<^sup>*)"
  using assms(1)
proof (induction c rule: wf_induct_rule)
  case (less c)
  show ?case
  proof (cases "findFolder fs c")
    case None
    then have "c \<notin> folder_id ` set fs" by (simp add: findFolder_None_iff)
    then have "(t, c) \<notin> (parentRel fs)\<^sup>*" using assms(3) above_no_row by blast
    then show ?thesis using None by (subst climbToShared.simps) simp
  next
    case (Some f)
    then have f: "f \<in> set fs" "folder_id f = c" by (auto dest: findFolder_SomeD)
    then have c0: "c \<noteq> 0" using assms(2) by force
    show ?thesis
    proof (cases "c = t")
      case True
      then show ?thesis using Some f c0 by (subst climbToShared.simps) simp
    next
      case False
      show ?thesis
      proof (cases "folder_parentId f")
        case None
        then have "parentOf fs c = None" using Some by (simp add: parentOf_def)
        then have "(t, c) \<notin> (parentRel fs)\<^sup>*" using False above_root by blast
        moreover have "climbToShared fs None t = Some False"
          by (subst climbToShared.simps) simp
        ultimately show ?thesis using Some f c0 False None
          by (subst climbToShared.simps) simp
      next
        case (Some p)
        then have po: "parentOf fs c = Some p" using \<open>findFolder fs c = Some f\<close>
          by (simp add: parentOf_def)
        then have "(p, c) \<in> parentRel fs" by (simp add: parentRel_iff)
        then have "climbToShared fs (Some p) t = Some ((t, p) \<in> (parentRel fs)\<^sup>*)"
          by (rule less.IH)
        moreover have "(t, c) \<in> (parentRel fs)\<^sup>* \<longleftrightarrow> (t, p) \<in> (parentRel fs)\<^sup>*"
          using above_step [OF po, of t] False by auto
        ultimately show ?thesis using \<open>findFolder fs c = Some f\<close> f c0 False Some
          by (subst climbToShared.simps) simp
      qed
    qed
  qed
qed

section \<open>Bounded ascents\<close>

lemma card_above_less:
  assumes ac: "acyclic (parentRel fs)" and pc: "(p, c) \<in> parentRel fs"
  shows "card {a \<in> folder_id ` set fs. (a, p) \<in> (parentRel fs)\<^sup>*}
          < card {a \<in> folder_id ` set fs. (a, c) \<in> (parentRel fs)\<^sup>*}"
proof (rule psubset_card_mono)
  show "finite {a \<in> folder_id ` set fs. (a, c) \<in> (parentRel fs)\<^sup>*}" by simp
  have c: "c \<in> folder_id ` set fs" using pc by (auto dest: parentRel_rowD)
  have "(c, p) \<notin> (parentRel fs)\<^sup>*"
  proof
    assume "(c, p) \<in> (parentRel fs)\<^sup>*"
    then have "(c, c) \<in> (parentRel fs)\<^sup>+" using pc by (rule rtrancl_into_trancl1)
    then show False using ac by (simp add: acyclic_def)
  qed
  moreover have "\<And>a. (a, p) \<in> (parentRel fs)\<^sup>* \<Longrightarrow> (a, c) \<in> (parentRel fs)\<^sup>*"
    using pc by (rule rtrancl_into_rtrancl [rotated])
  ultimately show "{a \<in> folder_id ` set fs. (a, p) \<in> (parentRel fs)\<^sup>*}
          \<subset> {a \<in> folder_id ` set fs. (a, c) \<in> (parentRel fs)\<^sup>*}"
    using c by blast
qed

lemma card_above_le_length:
  "card {a \<in> folder_id ` set fs. (a, c) \<in> (parentRel fs)\<^sup>*} \<le> length fs"
proof -
  have "card {a \<in> folder_id ` set fs. (a, c) \<in> (parentRel fs)\<^sup>*} \<le> card (folder_id ` set fs)"
    by (rule card_mono) auto
  also have "\<dots> \<le> card (set fs)" by (rule card_image_le) simp
  also have "\<dots> \<le> length fs" by (rule card_length)
  finally show ?thesis .
qed

lemma onChain_sound: "onChain fs n a c \<Longrightarrow> (a, c) \<in> (parentRel fs)\<^sup>*"
proof (induction n arbitrary: c)
  case 0
  then show ?case by simp
next
  case (Suc n)
  show ?case
  proof (cases "a = c")
    case True
    then show ?thesis by simp
  next
    case False
    then obtain p where p: "parentOf fs c = Some p" "onChain fs n a p"
      using Suc.prems by (auto split: option.splits)
    then have "(a, p) \<in> (parentRel fs)\<^sup>*" by (intro Suc.IH)
    then show ?thesis using above_step [OF p(1), of a] by simp
  qed
qed

lemma onChain_complete:
  assumes ac: "acyclic (parentRel fs)"
  shows "(a, c) \<in> (parentRel fs)\<^sup>*
    \<Longrightarrow> card {a \<in> folder_id ` set fs. (a, c) \<in> (parentRel fs)\<^sup>*} \<le> n \<Longrightarrow> onChain fs n a c"
proof (induction n arbitrary: c)
  case 0
  then have "{a \<in> folder_id ` set fs. (a, c) \<in> (parentRel fs)\<^sup>*} = {}" by simp
  then have "c \<notin> folder_id ` set fs" by blast
  then show ?case using 0 above_no_row by fastforce
next
  case (Suc n)
  show ?case
  proof (cases "a = c")
    case True
    then show ?thesis by simp
  next
    case False
    then obtain p where p: "parentOf fs c = Some p" "(a, p) \<in> (parentRel fs)\<^sup>*"
      using above_cases [OF Suc.prems(1)] by blast
    then have "(p, c) \<in> parentRel fs" by (simp add: parentRel_iff)
    from card_above_less [OF ac this] Suc.prems(2)
    have "card {a \<in> folder_id ` set fs. (a, p) \<in> (parentRel fs)\<^sup>*} \<le> n" by simp
    then have "onChain fs n a p" using p by (intro Suc.IH)
    then show ?thesis using p by simp
  qed
qed

lemma onChain_iff:
  "acyclic (parentRel fs) \<Longrightarrow> onChain fs (length fs) a c \<longleftrightarrow> (a, c) \<in> (parentRel fs)\<^sup>*"
  using onChain_sound onChain_complete card_above_le_length by blast

lemma reachesRoot_card:
  assumes ac: "acyclic (parentRel fs)"
    and ri: "\<And>p c. (p, c) \<in> parentRel fs \<Longrightarrow> p \<in> folder_id ` set fs"
  shows "c \<in> folder_id ` set fs
    \<Longrightarrow> card {a \<in> folder_id ` set fs. (a, c) \<in> (parentRel fs)\<^sup>*} \<le> n \<Longrightarrow> reachesRoot fs n c"
proof (induction n arbitrary: c)
  case 0
  then have "{a \<in> folder_id ` set fs. (a, c) \<in> (parentRel fs)\<^sup>*} = {}" by simp
  then show ?case using 0 by blast
next
  case (Suc n)
  then obtain f where f: "findFolder fs c = Some f"
    by (cases "findFolder fs c") (auto simp: findFolder_None_iff)
  show ?case
  proof (cases "folder_parentId f")
    case None
    then show ?thesis using f by simp
  next
    case (Some p)
    then have pc: "(p, c) \<in> parentRel fs" using f by (simp add: parentRel_iff parentOf_def)
    from card_above_less [OF ac this] Suc.prems(2)
    have "card {a \<in> folder_id ` set fs. (a, p) \<in> (parentRel fs)\<^sup>*} \<le> n" by simp
    then have "reachesRoot fs n p" using ri [OF pc] by (intro Suc.IH)
    then show ?thesis using f Some by simp
  qed
qed

section \<open>What a consistent database gives\<close>

lemma consistent_distinct: "consistent d \<Longrightarrow> distinct (map folder_id (folders d))"
  by (simp add: consistent_def)

lemma consistent_acyclic: "consistent d \<Longrightarrow> acyclic (parentRel (folders d))"
  by (simp add: consistent_def)

lemma consistent_wf: "consistent d \<Longrightarrow> wf (parentRel (folders d))"
  by (simp add: consistent_def finite_acyclic_wf finite_parentRel)

lemma consistent_range:
  "consistent d \<Longrightarrow> f \<in> set (folders d) \<Longrightarrow> 1 \<le> folder_id f \<and> folder_id f < folderSeq d"
  unfolding consistent_def by blast

lemma consistent_seq: "consistent d \<Longrightarrow> 1 \<le> folderSeq d \<and> folderSeq d \<le> 2147483648"
  by (simp add: consistent_def)

lemma consistent_ids:
  assumes "consistent d" and "f \<in> set (folders d)"
  shows "1 \<le> folder_id f \<and> folder_id f \<le> 2147483647"
  using consistent_range [OF assms] consistent_seq [OF assms(1)] by linarith

lemma consistent_zero: "consistent d \<Longrightarrow> (0::int) \<notin> folder_id ` set (folders d)"
proof
  assume c: "consistent d" and "(0::int) \<in> folder_id ` set (folders d)"
  then obtain f where "f \<in> set (folders d)" "folder_id f = 0" by auto
  with consistent_range [OF c, of f] show False by simp
qed

lemma consistent_parent:
  "consistent d \<Longrightarrow> f \<in> set (folders d) \<Longrightarrow> folder_parentId f = Some p
    \<Longrightarrow> \<exists>g \<in> set (folders d). folder_id g = p \<and> folder_ownerId g = folder_ownerId f"
  unfolding consistent_def by blast

lemma consistent_rel_parent:
  assumes "consistent d" and "(p, c) \<in> parentRel (folders d)"
  shows "p \<in> folder_id ` set (folders d)"
proof -
  from parentRel_rowD [OF assms(2)] obtain f where
    "f \<in> set (folders d)" "folder_parentId f = Some p" by blast
  with consistent_parent [OF assms(1)] show ?thesis by force
qed

lemma consistent_file:
  "consistent d \<Longrightarrow> x \<in> set (files d) \<Longrightarrow> file_folderId x = Some c
    \<Longrightarrow> \<exists>g \<in> set (folders d). folder_id g = c \<and> folder_ownerId g = file_ownerId x"
  unfolding consistent_def by blast

lemma consistent_link:
  assumes "consistent d" and "l \<in> set (shareLinks d)"
  shows "link_folderId l \<in> folder_id ` set (folders d)"
proof -
  from assms obtain g where "g \<in> set (folders d)" "folder_id g = link_folderId l"
    unfolding consistent_def by blast
  then show ?thesis by (metis imageI)
qed

lemma consistent_empty: "consistent emptyDb"
  by (simp add: consistent_def emptyDb_def parentRel_def parentOf_def findFolder_def
      acyclic_def)

section \<open>Writes that keep the database consistent\<close>

lemma consistent_files_links:
  assumes c: "consistent d"
    and "folders d' = folders d" and "folderSeq d' = folderSeq d"
    and fl: "\<And>x c. x \<in> set (files d') \<Longrightarrow> x \<notin> set (files d) \<Longrightarrow> file_folderId x = Some c
              \<Longrightarrow> \<exists>g \<in> set (folders d). folder_id g = c \<and> folder_ownerId g = file_ownerId x"
    and ln: "\<And>l. l \<in> set (shareLinks d') \<Longrightarrow> l \<notin> set (shareLinks d)
              \<Longrightarrow> \<exists>g \<in> set (folders d). folder_id g = link_folderId l"
  shows "consistent d'"
proof -
  have 1: "\<forall>x \<in> set (files d'). \<forall>c. file_folderId x = Some c \<longrightarrow>
            (\<exists>g \<in> set (folders d). folder_id g = c \<and> folder_ownerId g = file_ownerId x)"
    using fl consistent_file [OF c] by blast
  have 2: "\<forall>l \<in> set (shareLinks d'). \<exists>g \<in> set (folders d). folder_id g = link_folderId l"
    using ln c unfolding consistent_def by blast
  show ?thesis using c 1 2 assms(2,3) unfolding consistent_def by simp
qed

lemma parentOf_append:
  assumes "folder_id row \<notin> folder_id ` set fs"
  shows "parentOf (fs @ [row]) c = (if c = folder_id row then folder_parentId row else parentOf fs c)"
proof (cases "findFolder fs c")
  case None
  then show ?thesis by (auto simp: parentOf_def findFolder_append)
next
  case (Some f)
  from findFolder_SomeD [OF Some] have "c \<in> folder_id ` set fs" by blast
  then have "c \<noteq> folder_id row" using assms by blast
  then show ?thesis using Some by (simp add: parentOf_def findFolder_append)
qed

lemma consistent_addFolder:
  assumes c: "consistent d" and seq: "folderSeq d \<le> 2147483647"
    and par: "\<And>p. pid = Some p \<Longrightarrow>
               \<exists>g \<in> set (folders d). folder_id g = p \<and> folder_ownerId g = ownerId"
  shows "consistent (d\<lparr>folders := folders d @
            [\<lparr>folder_id = folderSeq d, folder_name = nm, folder_ownerId = ownerId,
              folder_parentId = pid\<rparr>], folderSeq := folderSeq d + 1\<rparr>)"
proof -
  let ?row = "\<lparr>folder_id = folderSeq d, folder_name = nm, folder_ownerId = ownerId,
               folder_parentId = pid\<rparr>"
  let ?fs = "folders d" and ?R = "parentRel (folders d)"
  have fresh: "folderSeq d \<notin> folder_id ` set ?fs"
  proof
    assume "folderSeq d \<in> folder_id ` set ?fs"
    then obtain f where "f \<in> set ?fs" "folder_id f = folderSeq d" by auto
    with consistent_range [OF c, of f] show False by simp
  qed
  then have fresh': "folder_id ?row \<notin> folder_id ` set ?fs" by simp
  have rel: "parentRel (?fs @ [?row]) = ?R \<union> (case pid of None \<Rightarrow> {} | Some p \<Rightarrow> {(p, folderSeq d)})"
  proof -
    have none: "parentOf ?fs (folderSeq d) = None"
      using fresh by (simp add: parentOf_def findFolder_None_iff [THEN iffD2])
    have "\<And>q c. (q, c) \<in> parentRel (?fs @ [?row]) \<longleftrightarrow>
            (q, c) \<in> ?R \<or> (pid = Some q \<and> c = folderSeq d)"
      using none by (simp add: parentRel_iff parentOf_append [OF fresh'])
    then show ?thesis by (cases pid) auto
  qed
  have ac: "acyclic (parentRel (?fs @ [?row]))"
  proof (cases pid)
    case None
    then show ?thesis using rel consistent_acyclic [OF c] by simp
  next
    case (Some p)
    have "(folderSeq d, p) \<notin> ?R\<^sup>*"
    proof
      assume a: "(folderSeq d, p) \<in> ?R\<^sup>*"
      have "p \<in> folder_id ` set ?fs" using par [OF Some] by force
      then have "folderSeq d \<noteq> p" using fresh by blast
      with a obtain y where "(folderSeq d, y) \<in> ?R"
        by (auto elim: converse_rtranclE)
      then show False using consistent_rel_parent [OF c] fresh by blast
    qed
    then show ?thesis using rel Some consistent_acyclic [OF c] by simp
  qed
  have d: "distinct (map folder_id (?fs @ [?row]))"
    using consistent_distinct [OF c] fresh by simp
  have ids: "\<forall>f \<in> set (?fs @ [?row]). 1 \<le> folder_id f \<and> folder_id f < folderSeq d + 1"
  proof
    fix f assume "f \<in> set (?fs @ [?row])"
    then have "f \<in> set ?fs \<or> f = ?row" by auto
    then show "1 \<le> folder_id f \<and> folder_id f < folderSeq d + 1"
      using consistent_range [OF c, of f] consistent_seq [OF c] by auto
  qed
  have ri: "\<forall>f \<in> set (?fs @ [?row]). \<forall>p. folder_parentId f = Some p \<longrightarrow>
            (\<exists>g \<in> set (?fs @ [?row]). folder_id g = p \<and> folder_ownerId g = folder_ownerId f)"
  proof (intro ballI allI impI)
    fix f p assume f: "f \<in> set (?fs @ [?row])" "folder_parentId f = Some p"
    show "\<exists>g \<in> set (?fs @ [?row]). folder_id g = p \<and> folder_ownerId g = folder_ownerId f"
    proof (cases "f = ?row")
      case True
      then show ?thesis using par [of p] f by auto
    next
      case False
      then have "f \<in> set ?fs" using f by simp
      from consistent_parent [OF c this f(2)] show ?thesis by auto
    qed
  qed
  have fl: "\<forall>x \<in> set (files d). \<forall>c. file_folderId x = Some c \<longrightarrow>
            (\<exists>g \<in> set (?fs @ [?row]). folder_id g = c \<and> folder_ownerId g = file_ownerId x)"
  proof (intro ballI allI impI)
    fix x c' assume "x \<in> set (files d)" "file_folderId x = Some c'"
    from consistent_file [OF c this]
    show "\<exists>g \<in> set (?fs @ [?row]). folder_id g = c' \<and> folder_ownerId g = file_ownerId x"
      by auto
  qed
  have ln: "\<forall>l \<in> set (shareLinks d). \<exists>g \<in> set (?fs @ [?row]). folder_id g = link_folderId l"
  proof
    fix l assume "l \<in> set (shareLinks d)"
    from consistent_link [OF c this]
    show "\<exists>g \<in> set (?fs @ [?row]). folder_id g = link_folderId l" by auto
  qed
  have seq1: "1 \<le> folderSeq d + 1 \<and> folderSeq d + 1 \<le> 2147483648"
    using seq consistent_seq [OF c] by simp
  show ?thesis
    unfolding consistent_def using d ids ri ac fl ln seq1 by simp
qed

lemma findFolder_map:
  assumes "\<And>f. folder_id (g f) = folder_id f"
  shows "findFolder (map g fs) c = map_option g (findFolder fs c)"
  unfolding findFolder_def using assms by (induction fs) auto

lemma consistent_updateFolder:
  assumes c: "consistent d" and F: "findFolder (folders d) F = Some folder"
    and par: "\<And>p. np = Some p \<Longrightarrow>
               (\<exists>g \<in> set (folders d). folder_id g = p \<and> folder_ownerId g = folder_ownerId folder)
               \<and> (F, p) \<notin> (parentRel (folders d))\<^sup>*"
  shows "consistent (d\<lparr>folders := map (\<lambda>f. if folder_id f = F
            then folder\<lparr>folder_name := nm, folder_parentId := np\<rparr> else f) (folders d)\<rparr>)"
proof -
  define upd where
    "upd = (\<lambda>f. if folder_id f = F then folder\<lparr>folder_name := nm, folder_parentId := np\<rparr> else f)"
  let ?fs = "folders d" and ?R = "parentRel (folders d)"
  have Fid: "folder_id folder = F" and Fin: "folder \<in> set ?fs"
    using findFolder_SomeD [OF F] by auto
  have id: "\<And>f. folder_id (upd f) = folder_id f" using Fid by (simp add: upd_def)
  have updF: "\<And>f. folder_id f = F \<Longrightarrow> upd f = folder\<lparr>folder_name := nm, folder_parentId := np\<rparr>"
    and updN: "\<And>f. folder_id f \<noteq> F \<Longrightarrow> upd f = f"
    by (simp_all add: upd_def)
  have own: "\<And>f. f \<in> set ?fs \<Longrightarrow> folder_ownerId (upd f) = folder_ownerId f"
  proof -
    fix f assume "f \<in> set ?fs"
    show "folder_ownerId (upd f) = folder_ownerId f"
    proof (cases "folder_id f = F")
      case True
      then have "findFolder ?fs (folder_id f) = Some folder" using F by simp
      moreover have "findFolder ?fs (folder_id f) = Some f"
        using \<open>f \<in> set ?fs\<close> consistent_distinct [OF c] by (rule findFolder_distinct [rotated])
      ultimately show ?thesis using True by (simp add: updF)
    next
      case False
      then show ?thesis by (simp add: updN)
    qed
  qed
  have ids: "map folder_id (map upd ?fs) = map folder_id ?fs"
    by (simp add: id)
  have po: "\<And>c. parentOf (map upd ?fs) c = (if c = F then np else parentOf ?fs c)"
  proof -
    fix c
    have fm: "findFolder (map upd ?fs) c = map_option upd (findFolder ?fs c)"
      by (rule findFolder_map) (rule id)
    show "parentOf (map upd ?fs) c = (if c = F then np else parentOf ?fs c)"
    proof (cases "findFolder ?fs c")
      case None
      then have "c \<noteq> F" using F by auto
      then show ?thesis using None fm by (simp add: parentOf_def)
    next
      case (Some f)
      then have "folder_id f = c" using findFolder_SomeD by blast
      then show ?thesis using Some fm by (cases "c = F") (simp_all add: parentOf_def updF updN)
    qed
  qed
  have ac: "acyclic (parentRel (map upd ?fs))"
  proof -
    define R0 where "R0 = {(q, c). (q, c) \<in> ?R \<and> c \<noteq> F}"
    have sub: "R0 \<subseteq> ?R" unfolding R0_def by blast
    have ac0: "acyclic R0" using consistent_acyclic [OF c] sub by (rule acyclic_subset)
    have R0I: "\<And>q c. parentOf ?fs c = Some q \<Longrightarrow> c \<noteq> F \<Longrightarrow> (q, c) \<in> R0"
      unfolding R0_def by (simp add: parentRel_iff)
    show ?thesis
    proof (cases np)
      case None
      have "parentRel (map upd ?fs) \<subseteq> R0"
      proof
        fix x assume x: "x \<in> parentRel (map upd ?fs)"
        obtain q c where qc: "x = (q, c)" by (cases x)
        with x have "(if c = F then np else parentOf ?fs c) = Some q"
          by (simp add: parentRel_iff po)
        then have "c \<noteq> F \<and> parentOf ?fs c = Some q" using None by (simp split: if_splits)
        then show "x \<in> R0" using qc R0I by simp
      qed
      with ac0 show ?thesis by (rule acyclic_subset)
    next
      case (Some p)
      then have "(F, p) \<notin> ?R\<^sup>*" using par by blast
      then have "(F, p) \<notin> R0\<^sup>*" using rtrancl_mono [OF sub] by blast
      then have "acyclic (insert (p, F) R0)" using ac0 by simp
      moreover have "parentRel (map upd ?fs) \<subseteq> insert (p, F) R0"
      proof
        fix x assume x: "x \<in> parentRel (map upd ?fs)"
        obtain q c where qc: "x = (q, c)" by (cases x)
        with x have "(if c = F then np else parentOf ?fs c) = Some q"
          by (simp add: parentRel_iff po)
        then have "(c = F \<and> q = p) \<or> (c \<noteq> F \<and> parentOf ?fs c = Some q)"
          using Some by (simp split: if_splits)
        then show "x \<in> insert (p, F) R0" using qc R0I by auto
      qed
      ultimately show ?thesis by (rule acyclic_subset)
    qed
  qed
  have keep: "\<And>p o'. \<exists>g \<in> set ?fs. folder_id g = p \<and> folder_ownerId g = o'
                \<Longrightarrow> \<exists>g \<in> set (map upd ?fs). folder_id g = p \<and> folder_ownerId g = o'"
  proof -
    fix p o' assume "\<exists>g \<in> set ?fs. folder_id g = p \<and> folder_ownerId g = o'"
    then obtain g where g: "g \<in> set ?fs" "folder_id g = p" "folder_ownerId g = o'" by blast
    then have "upd g \<in> set (map upd ?fs)" by (simp only: set_map) (rule imageI)
    moreover have "folder_id (upd g) = p" using g id by simp
    moreover have "folder_ownerId (upd g) = o'" using g own by simp
    ultimately show "\<exists>g \<in> set (map upd ?fs). folder_id g = p \<and> folder_ownerId g = o'"
      by blast
  qed
  have ri: "\<forall>f \<in> set (map upd ?fs). \<forall>p. folder_parentId f = Some p \<longrightarrow>
            (\<exists>g \<in> set (map upd ?fs). folder_id g = p \<and> folder_ownerId g = folder_ownerId f)"
  proof (intro ballI allI impI)
    fix f p assume f: "f \<in> set (map upd ?fs)" "folder_parentId f = Some p"
    then obtain f0 where f0: "f0 \<in> set ?fs" "f = upd f0" by (auto simp only: set_map)
    show "\<exists>g \<in> set (map upd ?fs). folder_id g = p \<and> folder_ownerId g = folder_ownerId f"
    proof (cases "folder_id f0 = F")
      case True
      then have "np = Some p" "folder_ownerId f = folder_ownerId folder"
        using f f0 by (auto simp: updF)
      then show ?thesis using par [of p] keep [of p "folder_ownerId folder"] by simp
    next
      case False
      then have "f = f0" using f0 by (simp add: updN)
      then show ?thesis using consistent_parent [OF c f0(1), of p] f keep [of p "folder_ownerId f"] by simp
    qed
  qed
  have fl: "\<forall>x \<in> set (files d). \<forall>c. file_folderId x = Some c \<longrightarrow>
            (\<exists>g \<in> set (map upd ?fs). folder_id g = c \<and> folder_ownerId g = file_ownerId x)"
  proof (intro ballI allI impI)
    fix x c' assume "x \<in> set (files d)" "file_folderId x = Some c'"
    from keep [OF consistent_file [OF c this]]
    show "\<exists>g \<in> set (map upd ?fs). folder_id g = c' \<and> folder_ownerId g = file_ownerId x" .
  qed
  have ln: "\<forall>l \<in> set (shareLinks d). \<exists>g \<in> set (map upd ?fs). folder_id g = link_folderId l"
  proof
    fix l assume "l \<in> set (shareLinks d)"
    then obtain g where g: "g \<in> set ?fs" "folder_id g = link_folderId l"
      using c unfolding consistent_def by blast
    then have "\<exists>h \<in> set ?fs. folder_id h = link_folderId l \<and> folder_ownerId h = folder_ownerId g"
      by blast
    from keep [OF this] show "\<exists>g \<in> set (map upd ?fs). folder_id g = link_folderId l" by blast
  qed
  have d: "distinct (map folder_id (map upd ?fs))"
    using consistent_distinct [OF c] unfolding ids .
  have rng: "\<forall>f \<in> set (map upd ?fs). 1 \<le> folder_id f \<and> folder_id f < folderSeq d"
  proof
    fix f assume "f \<in> set (map upd ?fs)"
    then obtain f0 where f0: "f0 \<in> set ?fs" "f = upd f0" by (auto simp only: set_map)
    then show "1 \<le> folder_id f \<and> folder_id f < folderSeq d"
      using consistent_range [OF c f0(1)] id by simp
  qed
  have seq: "1 \<le> folderSeq d \<and> folderSeq d \<le> 2147483648" by (rule consistent_seq [OF c])
  have "consistent (d\<lparr>folders := map upd (folders d)\<rparr>)"
    unfolding consistent_def using d rng ri ac fl ln seq by simp
  then show ?thesis unfolding upd_def .
qed

lemma parentRel_filter:
  assumes "distinct (map folder_id fs)"
  shows "parentRel (filter P fs) \<subseteq> parentRel fs"
proof
  fix x assume x: "x \<in> parentRel (filter P fs)"
  obtain p c where pc: "x = (p, c)" by (cases x)
  with x obtain f where "f \<in> set (filter P fs)" "folder_id f = c" "folder_parentId f = Some p"
    using parentRel_rowD by blast
  then show "x \<in> parentRel fs" using pc parentRel_rowI [OF assms, of f p] by auto
qed

lemma consistent_withoutFolders:
  assumes c: "consistent d"
    and closed: "\<And>p c. (p, c) \<in> parentRel (folders d) \<Longrightarrow> p \<in> X \<Longrightarrow> c \<in> X"
  shows "consistent (withoutFolders d X)"
proof -
  let ?fs = "folders d" and ?gs = "filter (\<lambda>f. folder_id f \<notin> X) (folders d)"
  have dist: "distinct (map folder_id ?fs)" by (rule consistent_distinct [OF c])
  have d: "distinct (map folder_id ?gs)" using dist by (rule distinct_map_filter)
  have ac: "acyclic (parentRel ?gs)"
    using consistent_acyclic [OF c] parentRel_filter [OF dist] by (rule acyclic_subset)
  have keep: "\<And>p o'. p \<notin> X \<Longrightarrow> \<exists>g \<in> set ?fs. folder_id g = p \<and> folder_ownerId g = o'
                \<Longrightarrow> \<exists>g \<in> set ?gs. folder_id g = p \<and> folder_ownerId g = o'"
    by auto
  have ri: "\<forall>f \<in> set ?gs. \<forall>p. folder_parentId f = Some p \<longrightarrow>
            (\<exists>g \<in> set ?gs. folder_id g = p \<and> folder_ownerId g = folder_ownerId f)"
  proof (intro ballI allI impI)
    fix f p assume f: "f \<in> set ?gs" "folder_parentId f = Some p"
    then have f0: "f \<in> set ?fs" "folder_id f \<notin> X" by auto
    have "(p, folder_id f) \<in> parentRel ?fs" using dist f0(1) f(2) by (rule parentRel_rowI)
    then have "p \<notin> X" using closed f0(2) by blast
    then show "\<exists>g \<in> set ?gs. folder_id g = p \<and> folder_ownerId g = folder_ownerId f"
      using consistent_parent [OF c f0(1) f(2)] by (intro keep)
  qed
  have rng: "\<forall>f \<in> set ?gs. 1 \<le> folder_id f \<and> folder_id f < folderSeq d"
    using c unfolding consistent_def by auto
  have fl: "\<forall>x \<in> set (filter (\<lambda>x. case file_folderId x of None \<Rightarrow> True | Some c \<Rightarrow> c \<notin> X) (files d)).
            \<forall>c. file_folderId x = Some c \<longrightarrow>
            (\<exists>g \<in> set ?gs. folder_id g = c \<and> folder_ownerId g = file_ownerId x)"
  proof (intro ballI allI impI)
    fix x c' assume x: "x \<in> set (filter (\<lambda>x. case file_folderId x of None \<Rightarrow> True | Some c \<Rightarrow> c \<notin> X) (files d))"
      "file_folderId x = Some c'"
    then have "x \<in> set (files d)" "c' \<notin> X" by auto
    then show "\<exists>g \<in> set ?gs. folder_id g = c' \<and> folder_ownerId g = file_ownerId x"
      using consistent_file [OF c _ x(2)] by (intro keep)
  qed
  have ln: "\<forall>l \<in> set (filter (\<lambda>l. link_folderId l \<notin> X) (shareLinks d)).
              \<exists>g \<in> set ?gs. folder_id g = link_folderId l"
  proof
    fix l assume "l \<in> set (filter (\<lambda>l. link_folderId l \<notin> X) (shareLinks d))"
    then have l: "l \<in> set (shareLinks d)" "link_folderId l \<notin> X" by auto
    from consistent_link [OF c l(1)] obtain g where "g \<in> set ?fs" "folder_id g = link_folderId l"
      by force
    then show "\<exists>g \<in> set ?gs. folder_id g = link_folderId l" using l(2) by auto
  qed
  have seq: "1 \<le> folderSeq d \<and> folderSeq d \<le> 2147483648" by (rule consistent_seq [OF c])
  show ?thesis
    unfolding consistent_def withoutFolders_def using d rng ri ac fl ln seq by simp
qed

section \<open>The routes keep the database consistent\<close>

lemma subtree_closed:
  "(p, c) \<in> parentRel fs \<Longrightarrow> p \<in> subtree fs i \<Longrightarrow> c \<in> subtree fs i"
  unfolding subtree_def by (auto intro: rtrancl_into_rtrancl)

lemma prismaFolderDelete_eq:
  assumes "acyclic (parentRel (folders d))" and "findFolder (folders d) i = Some f"
  shows "prismaFolderDelete d i = (Inr (), withoutFolders d (subtree (folders d) i))"
proof -
  have "\<And>x. onChain (folders d) (length (folders d)) i x \<longleftrightarrow> x \<in> subtree (folders d) i"
    unfolding subtree_def using onChain_iff [OF assms(1)] by simp
  then have eq: "onChain (folders d) (length (folders d)) i = (\<lambda>x. x \<in> subtree (folders d) i)"
    by (intro ext)
  show ?thesis
    using assms(2) unfolding prismaFolderDelete_def withoutFolders_def Let_def eq by simp
qed

lemma prismaFolderDelete_consistent:
  assumes c: "consistent d" and r: "prismaFolderDelete d i = (r, d')"
  shows "consistent d'"
proof (cases "findFolder (folders d) i")
  case None
  then show ?thesis using c r by (simp add: prismaFolderDelete_def)
next
  case (Some f)
  have "d' = withoutFolders d (subtree (folders d) i)"
    using prismaFolderDelete_eq [OF consistent_acyclic [OF c] Some] r by simp
  moreover have "consistent (withoutFolders d (subtree (folders d) i))"
    using c by (rule consistent_withoutFolders) (rule subtree_closed)
  ultimately show ?thesis by simp
qed

lemma deleteFolderRecursively_consistent:
  "deleteFolderRecursively n i ownerId d = Some (r, d') \<Longrightarrow> consistent d \<Longrightarrow> consistent d'"
  "deleteChildren n cs ownerId d = Some (r, d') \<Longrightarrow> consistent d \<Longrightarrow> consistent d'"
proof (induction n i ownerId d and n cs ownerId d arbitrary: r d' and r d'
    rule: deleteFolderRecursively_deleteChildren.induct)
  case (1 folderId ownerId d)
  then show ?case by simp
next
  case (2 n folderId ownerId d)
  let ?cs = "filter (\<lambda>f. folder_parentId f = Some folderId \<and> folder_ownerId f = ownerId) (folders d)"
  show ?case
  proof (cases "deleteChildren n ?cs ownerId d")
    case None
    then show ?thesis using "2.prems"(1) by simp
  next
    case (Some res)
    obtain r1 d1 where res: "res = (r1, d1)" by (cases res)
    from "2.IH" [OF Some [unfolded res] "2.prems"(2)] have c1: "consistent d1" .
    show ?thesis
    proof (cases r1)
      case (Inl e)
      then have "d' = d1" using "2.prems"(1) Some res by simp
      then show ?thesis using c1 by simp
    next
      case (Inr dl)
      obtain r2 d2 where s2: "prismaFolderDelete d1 folderId = (r2, d2)"
        by (cases "prismaFolderDelete d1 folderId")
      from prismaFolderDelete_consistent [OF c1 s2] have "consistent d2" .
      moreover have "d' = d2" using "2.prems"(1) Some res Inr s2 by (cases r2) simp_all
      ultimately show ?thesis by simp
    qed
  qed
next
  case (3 n ownerId d)
  then show ?case by simp
next
  case (4 n child rest ownerId d)
  show ?case
  proof (cases "deleteFolderRecursively n (folder_id child) ownerId d")
    case None
    then show ?thesis using "4.prems"(1) by simp
  next
    case (Some res)
    obtain r1 d1 where res: "res = (r1, d1)" by (cases res)
    from "4.IH"(1) [OF Some [unfolded res] "4.prems"(2)] have c1: "consistent d1" .
    show ?thesis
    proof (cases r1)
      case (Inl e)
      then have "d' = d1" using "4.prems"(1) Some res by simp
      then show ?thesis using c1 by simp
    next
      case (Inr dl)
      show ?thesis
      proof (cases "deleteChildren n rest ownerId d1")
        case None
        then show ?thesis using "4.prems"(1) Some res Inr by simp
      next
        case s2: (Some res2)
        obtain r2 d2 where res2: "res2 = (r2, d2)" by (cases res2)
        have "consistent d2"
          using "4.IH"(2) [OF Some [unfolded res] refl Inr s2 [unfolded res2] c1] .
        moreover have "d' = d2" using "4.prems"(1) Some res Inr s2 res2 by (cases r2) simp_all
        ultimately show ?thesis by simp
      qed
    qed
  qed
qed

lemma createFolder_InlD: "createFolder d ownerId name parentId = (Inl e, d') \<Longrightarrow> d' = d"
  unfolding createFolder_def
  by (auto simp: Let_def split: sum.splits option.splits if_splits)

lemma createFolder_consistent:
  assumes c: "consistent d" and r: "createFolder d ownerId name parentId = (r, d')"
  shows "consistent d'"
proof (cases r)
  case (Inl e)
  then show ?thesis using createFolder_InlD c r by blast
next
  case (Inr f)
  from createFolder_InrD [OF r [unfolded Inr]] obtain nm where
    f: "f = \<lparr>folder_id = folderSeq d, folder_name = nm, folder_ownerId = ownerId,
            folder_parentId = (if truthy parentId then prismaInt (parseInt parentId) else None)\<rparr>"
    and par: "truthy parentId \<longrightarrow> (\<exists>p g. prismaInt (parseInt parentId) = Some p
                 \<and> findFolder (folders d) p = Some g \<and> folder_ownerId g = ownerId)"
    and seq: "folderSeq d \<le> 2147483647"
    and d': "d' = d\<lparr>folders := folders d @ [f], folderSeq := folderSeq d + 1\<rparr>"
    by blast
  have "\<And>p. (if truthy parentId then prismaInt (parseInt parentId) else None) = Some p \<Longrightarrow>
          \<exists>g \<in> set (folders d). folder_id g = p \<and> folder_ownerId g = ownerId"
    using par findFolder_SomeD by (fastforce split: if_splits)
  from consistent_addFolder [OF c seq this] show ?thesis unfolding d' f .
qed

lemma updateFolder_SomeD:
  assumes "updateFolder d userId idParam name parentId = Some (r, d')"
  shows "d' = d \<or> (\<exists>folder nm np.
           findFolder (folders d) (folder_id folder) = Some folder
           \<and> d' = d\<lparr>folders := map (\<lambda>f. if folder_id f = folder_id folder
                      then folder\<lparr>folder_name := nm, folder_parentId := np\<rparr> else f) (folders d)\<rparr>
           \<and> (\<forall>q. np = Some q \<longrightarrow>
                 (\<exists>g. findFolder (folders d) q = Some g \<and> folder_ownerId g = folder_ownerId folder)
                 \<and> checkCircularReference (folders d) (Some q) (folder_id folder) = Some False))"
proof (cases "verifyFolderOwnership d userId idParam")
  case (Inl e)
  then show ?thesis using assms by (simp add: updateFolder_def)
next
  case (Inr folder)
  note v = verify_InrD [OF Inr]
  show ?thesis
  proof (cases "validateName name")
    case (Inl e)
    then show ?thesis using assms Inr v by (simp add: updateFolder_def)
  next
    case nm: (Inr nm)
    let ?upd = "\<lambda>np. d\<lparr>folders := map (\<lambda>f. if folder_id f = folder_id folder
                      then folder\<lparr>folder_name := nm, folder_parentId := np\<rparr> else f) (folders d)\<rparr>"
    show ?thesis
    proof (cases "parentId \<noteq> JUndefined \<and> parentId \<noteq> JNull \<and> parentId \<noteq> JStr []")
      case False
      then have "d' = d \<or> d' = ?upd None" using assms Inr v nm
        by (auto simp: updateFolder_def Let_def split: if_splits)
      then show ?thesis using v by blast
    next
      case True
      show ?thesis
      proof (cases "parseInt parentId = Some (folder_id folder)")
        case self: True
        then show ?thesis using assms Inr v nm True by (simp add: updateFolder_def)
      next
        case nself: False
        show ?thesis
        proof (cases "prismaInt (parseInt parentId)")
          case None
          then show ?thesis using assms Inr v nm True nself by (simp add: updateFolder_def)
        next
          case (Some q)
          show ?thesis
          proof (cases "findFolder (folders d) q")
            case None
            then show ?thesis using assms Inr v nm True nself Some by (simp add: updateFolder_def)
          next
            case g: (Some g)
            show ?thesis
            proof (cases "folder_ownerId g \<noteq> userId")
              case True
              then show ?thesis using assms Inr v nm \<open>parentId \<noteq> JUndefined \<and> parentId \<noteq> JNull \<and> parentId \<noteq> JStr []\<close> nself Some g
                by (simp add: updateFolder_def)
            next
              case own: False
              show ?thesis
              proof (cases "checkCircularReference (folders d) (Some q) (folder_id folder)")
                case None
                then show ?thesis using assms Inr v nm True nself Some g own
                  by (simp add: updateFolder_def)
              next
                case cc: (Some b)
                show ?thesis
                proof (cases b)
                  case True
                  then show ?thesis using assms Inr v nm \<open>parentId \<noteq> JUndefined \<and> parentId \<noteq> JNull \<and> parentId \<noteq> JStr []\<close> nself Some g own cc
                    by (simp add: updateFolder_def)
                next
                  case False
                  then have "d' = d \<or> d' = ?upd (Some q)"
                    using assms Inr v nm True nself Some g own cc
                    by (simp add: updateFolder_def Let_def split: if_splits)
                  moreover have "\<forall>q'. Some q = Some q' \<longrightarrow>
                     (\<exists>g. findFolder (folders d) q' = Some g \<and> folder_ownerId g = folder_ownerId folder)
                     \<and> checkCircularReference (folders d) (Some q') (folder_id folder) = Some False"
                    using g own cc False v by simp
                  ultimately show ?thesis using v by blast
                qed
              qed
            qed
          qed
        qed
      qed
    qed
  qed
qed

lemma updateFolder_consistent:
  assumes c: "consistent d" and r: "updateFolder d userId idParam name parentId = Some (r, d')"
  shows "consistent d'"
proof -
  from updateFolder_SomeD [OF r] show ?thesis
  proof
    assume "d' = d"
    then show ?thesis using c by simp
  next
    assume "\<exists>folder nm np.
           findFolder (folders d) (folder_id folder) = Some folder
           \<and> d' = d\<lparr>folders := map (\<lambda>f. if folder_id f = folder_id folder
                      then folder\<lparr>folder_name := nm, folder_parentId := np\<rparr> else f) (folders d)\<rparr>
           \<and> (\<forall>q. np = Some q \<longrightarrow>
                 (\<exists>g. findFolder (folders d) q = Some g \<and> folder_ownerId g = folder_ownerId folder)
                 \<and> checkCircularReference (folders d) (Some q) (folder_id folder) = Some False)"
    then obtain folder nm np where
      F: "findFolder (folders d) (folder_id folder) = Some folder"
      and d': "d' = d\<lparr>folders := map (\<lambda>f. if folder_id f = folder_id folder
                      then folder\<lparr>folder_name := nm, folder_parentId := np\<rparr> else f) (folders d)\<rparr>"
      and np: "\<And>q. np = Some q \<Longrightarrow>
                 (\<exists>g. findFolder (folders d) q = Some g \<and> folder_ownerId g = folder_ownerId folder)
                 \<and> checkCircularReference (folders d) (Some q) (folder_id folder) = Some False"
      by blast
    have t: "folder_id folder \<in> folder_id ` set (folders d)"
      using findFolder_SomeD [OF F] by blast
    have "\<And>p. np = Some p \<Longrightarrow>
               (\<exists>g \<in> set (folders d). folder_id g = p \<and> folder_ownerId g = folder_ownerId folder)
               \<and> (folder_id folder, p) \<notin> (parentRel (folders d))\<^sup>*"
    proof -
      fix p assume "np = Some p"
      from np [OF this] obtain g where
        g: "findFolder (folders d) p = Some g" "folder_ownerId g = folder_ownerId folder"
        and cc: "checkCircularReference (folders d) (Some p) (folder_id folder) = Some False"
        by blast
      have "(folder_id folder, p) \<notin> (parentRel (folders d))\<^sup>*"
        using cc checkCircularReference_wf [OF consistent_wf [OF c] consistent_zero [OF c] t, of p]
        by simp
      then show "(\<exists>g \<in> set (folders d). folder_id g = p \<and> folder_ownerId g = folder_ownerId folder)
               \<and> (folder_id folder, p) \<notin> (parentRel (folders d))\<^sup>*"
        using g findFolder_SomeD by blast
    qed
    from consistent_updateFolder [OF c F this] show ?thesis unfolding d' .
  qed
qed

lemma deleteFolder_consistent:
  assumes c: "consistent d" and r: "deleteFolder fuel d userId idParam force = Some (r, d')"
  shows "consistent d'"
proof (cases "verifyFolderOwnership d userId idParam")
  case (Inl e)
  then show ?thesis using c r by (simp add: deleteFolder_def)
next
  case (Inr folder)
  note v = verify_InrD [OF Inr]
  let ?cc = "length (filter (\<lambda>f. folder_parentId f = Some (folder_id folder)
                                      \<and> folder_ownerId f = userId) (folders d))"
  let ?fc = "length (filter (\<lambda>x. file_folderId x = Some (folder_id folder)
                                      \<and> file_ownerId x = userId) (files d))"
  show ?thesis
  proof (cases "(?cc > 0 \<or> ?fc > 0) \<and> force \<noteq> JStr ''true''")
    case True
    then have "d' = d" using r Inr v by (simp add: deleteFolder_def Let_def)
    then show ?thesis using c by simp
  next
    case False
    show ?thesis
    proof (cases "force = JStr ''true''")
      case True
      show ?thesis
      proof (cases "deleteFolderRecursively fuel (folder_id folder) userId d")
        case None
        then show ?thesis using r Inr v True by (simp add: deleteFolder_def Let_def)
      next
        case (Some res)
        obtain r1 d1 where res: "res = (r1, d1)" by (cases res)
        have "d' = d1" using r Inr v True Some res
          by (cases r1) (simp_all add: deleteFolder_def Let_def)
        then show ?thesis
          using deleteFolderRecursively_consistent(1) [OF Some [unfolded res] c] by simp
      qed
    next
      case ntrue: False
      obtain r1 d1 where res: "prismaFolderDelete d (folder_id folder) = (r1, d1)"
        by (cases "prismaFolderDelete d (folder_id folder)")
      have "d' = d1" using r Inr v False ntrue res
        by (cases r1) (simp_all add: deleteFolder_def Let_def)
      then show ?thesis using prismaFolderDelete_consistent [OF c res] by simp
    qed
  qed
qed

lemma saveFiles_frame:
  "saveFiles ct dt ownerId t us acc d = (saved, d') \<Longrightarrow>
     folders d' = folders d \<and> folderSeq d' = folderSeq d \<and> shareLinks d' = shareLinks d
     \<and> (\<forall>x \<in> set (files d'). x \<in> set (files d) \<or> (file_folderId x = t \<and> file_ownerId x = ownerId))"
proof (induction us arbitrary: acc d)
  case Nil
  then show ?case by simp
next
  case (Cons u us)
  show ?case
  proof (cases "ct u \<or> fileSeq d > 2147483647")
    case True
    then have "saveFiles ct dt ownerId t us acc (destroyQuietly dt (up_filename u) d) = (saved, d')"
      using Cons.prems by simp
    from Cons.IH [OF this] show ?thesis by simp
  next
    case False
    let ?row = "\<lparr>file_id = fileSeq d, file_name = up_originalname u,
                  file_mimetype = up_mimetype u, file_size = up_size u,
                  file_cloudUrl = up_path u, file_publicId = up_filename u,
                  file_folderId = t, file_ownerId = ownerId\<rparr>"
    from False have "saveFiles ct dt ownerId t us (acc @ [?row])
        (d\<lparr>files := files d @ [?row], fileSeq := fileSeq d + 1\<rparr>) = (saved, d')"
      using Cons.prems by (simp add: Let_def)
    from Cons.IH [OF this] show ?thesis by auto
  qed
qed

lemma uploadFiles_consistent:
  assumes c: "consistent d" and r: "uploadFiles ct dt d ownerId folderId reqFiles = (r, d')"
  shows "consistent d'"
proof -
  let ?d = "d\<lparr>cloud := cloud d @ map up_filename reqFiles\<rparr>"
  let ?chk = "if truthy folderId
               then (case prismaInt (parseInt folderId) of
                       None \<Rightarrow> Inl ServerError
                     | Some p \<Rightarrow>
                         (case findFolder (folders ?d) p of
                            None \<Rightarrow> Inl FolderNotFound
                          | Some folder \<Rightarrow>
                              if folder_ownerId folder \<noteq> ownerId
                              then Inl FolderForbidden else Inr (Some p)))
               else Inr None"
  have c0: "consistent ?d" using c by (simp add: consistent_def)
  show ?thesis
  proof (cases ?chk)
    case (Inl e)
    then have "d' = destroyAll dt reqFiles ?d" using r unfolding uploadFiles_def Let_def by simp
    then show ?thesis using c by (simp add: consistent_def)
  next
    case (Inr t)
    then have t: "\<And>p. t = Some p \<Longrightarrow> \<exists>g. findFolder (folders d) p = Some g \<and> folder_ownerId g = ownerId"
      by (auto split: if_splits option.splits)
    show ?thesis
    proof (cases "length reqFiles = 0")
      case True
      then have "d' = ?d" using r Inr unfolding uploadFiles_def Let_def by simp
      then show ?thesis using c0 by simp
    next
      case False
      obtain saved d1 where s: "saveFiles ct dt ownerId t reqFiles [] ?d = (saved, d1)"
        by (cases "saveFiles ct dt ownerId t reqFiles [] ?d")
      have d': "d' = d1" using r Inr False s unfolding uploadFiles_def Let_def
        by (simp split: if_splits)
      from saveFiles_frame [OF s] have
        fr: "folders d1 = folders ?d" "folderSeq d1 = folderSeq ?d" "shareLinks d1 = shareLinks ?d"
        and fl: "\<And>x. x \<in> set (files d1) \<Longrightarrow> x \<in> set (files ?d)
                  \<or> (file_folderId x = t \<and> file_ownerId x = ownerId)"
        by auto
      have "consistent d1"
      proof (rule consistent_files_links [OF c0 fr(1) fr(2)])
        fix x c' assume "x \<in> set (files d1)" "x \<notin> set (files ?d)" "file_folderId x = Some c'"
        then have "t = Some c'" "file_ownerId x = ownerId" using fl by auto
        then show "\<exists>g \<in> set (folders ?d). folder_id g = c' \<and> folder_ownerId g = file_ownerId x"
          using t [of c'] findFolder_SomeD by fastforce
      next
        fix l assume "l \<in> set (shareLinks d1)" "l \<notin> set (shareLinks ?d)"
        then show "\<exists>g \<in> set (folders ?d). folder_id g = link_folderId l" using fr by simp
      qed
      then show ?thesis using d' by simp
    qed
  qed
qed

lemma updateFile_frame:
  "updateFile d userId idParam name folderId = (r, d') \<Longrightarrow>
     folders d' = folders d \<and> folderSeq d' = folderSeq d \<and> shareLinks d' = shareLinks d
     \<and> (\<forall>x \<in> set (files d'). x \<in> set (files d) \<or> file_folderId x = None
           \<or> (\<exists>g. findFolder (folders d) (the (file_folderId x)) = Some g
                  \<and> folder_ownerId g = file_ownerId x))"
  unfolding updateFile_def verifyFileOwnership_def
  by (auto simp: Let_def split: if_splits option.splits sum.splits)

lemma updateFile_consistent:
  assumes c: "consistent d" and r: "updateFile d userId idParam name folderId = (r, d')"
  shows "consistent d'"
proof -
  from updateFile_frame [OF r] have
    fr: "folders d' = folders d" "folderSeq d' = folderSeq d" "shareLinks d' = shareLinks d"
    and fl: "\<And>x. x \<in> set (files d') \<Longrightarrow> x \<in> set (files d) \<or> file_folderId x = None
           \<or> (\<exists>g. findFolder (folders d) (the (file_folderId x)) = Some g
                  \<and> folder_ownerId g = file_ownerId x)"
    by auto
  show ?thesis
  proof (rule consistent_files_links [OF c fr(1) fr(2)])
    fix x c' assume "x \<in> set (files d')" "x \<notin> set (files d)" "file_folderId x = Some c'"
    with fl [of x] obtain g where "findFolder (folders d) c' = Some g"
      "folder_ownerId g = file_ownerId x" by auto
    then show "\<exists>g \<in> set (folders d). folder_id g = c' \<and> folder_ownerId g = file_ownerId x"
      using findFolder_SomeD by blast
  next
    fix l assume "l \<in> set (shareLinks d')" "l \<notin> set (shareLinks d)"
    then show "\<exists>g \<in> set (folders d). folder_id g = link_folderId l" using fr by simp
  qed
qed

lemma deleteFile_frame:
  "deleteFile dt d userId idParam = (r, d') \<Longrightarrow>
     folders d' = folders d \<and> folderSeq d' = folderSeq d \<and> shareLinks d' = shareLinks d
     \<and> set (files d') \<subseteq> set (files d)"
  unfolding deleteFile_def
  by (auto split: option.splits sum.splits)

lemma deleteFile_consistent:
  assumes c: "consistent d" and r: "deleteFile dt d userId idParam = (r, d')"
  shows "consistent d'"
  using deleteFile_frame [OF r] by (intro consistent_files_links [OF c]) auto

lemma createShareLink_frame:
  "createShareLink localTZA d now dbNow uuid userId idParam duration = (r, d') \<Longrightarrow>
     folders d' = folders d \<and> folderSeq d' = folderSeq d \<and> files d' = files d
     \<and> (\<forall>l \<in> set (shareLinks d'). l \<in> set (shareLinks d)
           \<or> findFolder (folders d) (link_folderId l) \<noteq> None)"
  unfolding createShareLink_def
  by (auto simp: Let_def split: if_splits option.splits)

lemma createShareLink_consistent:
  assumes c: "consistent d"
    and r: "createShareLink localTZA d now dbNow uuid userId idParam duration = (r, d')"
  shows "consistent d'"
proof -
  from createShareLink_frame [OF r] have
    fr: "folders d' = folders d" "folderSeq d' = folderSeq d" "files d' = files d"
    and ln: "\<And>l. l \<in> set (shareLinks d') \<Longrightarrow> l \<in> set (shareLinks d)
           \<or> findFolder (folders d) (link_folderId l) \<noteq> None"
    by auto
  show ?thesis
  proof (rule consistent_files_links [OF c fr(1) fr(2)])
    fix x c' assume "x \<in> set (files d')" "x \<notin> set (files d)"
    then show "\<exists>g \<in> set (folders d). folder_id g = c' \<and> folder_ownerId g = file_ownerId x"
      using fr by simp
  next
    fix l assume "l \<in> set (shareLinks d')" "l \<notin> set (shareLinks d)"
    with ln [of l] obtain g where "findFolder (folders d) (link_folderId l) = Some g" by auto
    then show "\<exists>g \<in> set (folders d). folder_id g = link_folderId l"
      using findFolder_SomeD by blast
  qed
qed

lemma deleteShareLink_frame:
  "deleteShareLink d userId idParam = (r, d') \<Longrightarrow>
     folders d' = folders d \<and> folderSeq d' = folderSeq d \<and> files d' = files d
     \<and> set (shareLinks d') \<subseteq> set (shareLinks d)"
  unfolding deleteShareLink_def
  by (auto split: option.splits if_splits)

lemma deleteShareLink_consistent:
  assumes c: "consistent d" and r: "deleteShareLink d userId idParam = (r, d')"
  shows "consistent d'"
  using deleteShareLink_frame [OF r] by (intro consistent_files_links [OF c]) auto

lemma reachable_consistent: "reachable d \<Longrightarrow> consistent d"
proof (induction rule: reachable.induct)
  case r_empty
  show ?case by (rule consistent_empty)
next
  case (r_createFolder d userId name parentId r1 d')
  then show ?case using createFolder_consistent by blast
next
  case (r_updateFolder d userId idParam name parentId r1 d')
  then show ?case using updateFolder_consistent by blast
next
  case (r_deleteFolder d fuel userId idParam force r2 d')
  then show ?case using deleteFolder_consistent by blast
next
  case (r_uploadFiles d createThrows destroyThrows userId folderId reqFiles r3 d')
  then show ?case using uploadFiles_consistent by blast
next
  case (r_updateFile d userId idParam name folderId r4 d')
  then show ?case using updateFile_consistent by blast
next
  case (r_deleteFile d destroyThrows userId idParam r4 d')
  then show ?case using deleteFile_consistent by blast
next
  case (r_createShareLink d localTZA now dbNow uuid userId idParam duration r5 d')
  then show ?case using createShareLink_consistent by blast
next
  case (r_deleteShareLink d userId idParam r5 d')
  then show ?case using deleteShareLink_consistent by blast
qed

section \<open>No folder is above itself\<close>

text \<open>
  Claim C1: in every state the routes can bring about from the empty database,
  the walk from any folder along its parents meets a folder without parent within
  as many steps as the table has rows, and no folder is its own ancestor.
\<close>

theorem folder_chain_terminates:
  assumes "reachable d" and "f \<in> set (folders d)"
  shows "reachesRoot (folders d) (length (folders d)) (folder_id f)
         \<and> (folder_id f, folder_id f) \<notin> (parentRel (folders d))\<^sup>+"
proof -
  have c: "consistent d" using assms(1) by (rule reachable_consistent)
  have "reachesRoot (folders d) (length (folders d)) (folder_id f)"
  proof (rule reachesRoot_card [OF consistent_acyclic [OF c]])
    show "\<And>p c'. (p, c') \<in> parentRel (folders d) \<Longrightarrow> p \<in> folder_id ` set (folders d)"
      using consistent_rel_parent [OF c] .
    show "folder_id f \<in> folder_id ` set (folders d)" using assms(2) by (rule imageI)
    show "card {a \<in> folder_id ` set (folders d). (a, folder_id f) \<in> (parentRel (folders d))\<^sup>*}
            \<le> length (folders d)"
      by (rule card_above_le_length)
  qed
  moreover have "(folder_id f, folder_id f) \<notin> (parentRel (folders d))\<^sup>+"
    using consistent_acyclic [OF c] by (simp add: acyclic_def)
  ultimately show ?thesis by simp
qed

text \<open>Folder 2 of the example, which is inside folder 1.\<close>

theorem folder_chain_terminates_witness:
  "reachable exDb \<and> ex2024 \<in> set (folders exDb)
   \<and> reachesRoot (folders exDb) (length (folders exDb)) (folder_id ex2024)
   \<and> (folder_id ex2024, folder_id ex2024) \<notin> (parentRel (folders exDb))\<^sup>+"
proof -
  have h: "ex2024 \<in> set (folders exDb)" by (simp add: exDb_def)
  show ?thesis using folder_chain_terminates [OF reachable_exDb h] reachable_exDb h by simp
qed

section \<open>Moving a folder below itself\<close>

lemma parseInt_SomeD:
  "parseInt v = Some i \<Longrightarrow> v \<noteq> JUndefined \<and> v \<noteq> JNull \<and> v \<noteq> JStr []"
  by (cases v) (auto simp: parseIntStr_def)

lemma same_owner_step:
  assumes c: "consistent d" and pc: "(p, x) \<in> parentRel (folders d)"
  shows "\<exists>g f. findFolder (folders d) p = Some g \<and> findFolder (folders d) x = Some f
           \<and> folder_ownerId g = folder_ownerId f"
proof -
  from parentRel_rowD [OF pc] obtain f where
    f: "f \<in> set (folders d)" "folder_id f = x" "folder_parentId f = Some p" by blast
  from consistent_parent [OF c f(1) f(3)] obtain g where
    g: "g \<in> set (folders d)" "folder_id g = p" "folder_ownerId g = folder_ownerId f" by blast
  have "findFolder (folders d) x = Some f" "findFolder (folders d) p = Some g"
    using findFolder_distinct [OF consistent_distinct [OF c]] f g by auto
  then show ?thesis using g(3) by simp
qed

lemma same_owner_below:
  assumes c: "consistent d" and "(a, b) \<in> (parentRel (folders d))\<^sup>+"
  shows "\<exists>g f. findFolder (folders d) a = Some g \<and> findFolder (folders d) b = Some f
           \<and> folder_ownerId g = folder_ownerId f"
  using assms(2)
proof (induction rule: trancl_induct)
  case (base y)
  then show ?case by (rule same_owner_step [OF c])
next
  case (step y z)
  from same_owner_step [OF c step.hyps(2)] step.IH show ?case by auto
qed

text \<open>
  Claim C4, as the code has it: in a state the routes can bring about, a request to
  move a folder under one of its descendants always fails and leaves the database
  as it was. The route checks the requester and the name before the parent: the
  error is \<open>FolderForbidden\<close> for a requester who does not own the folder, the
  error of the validation for a request without a valid name (the route asks for
  a name also when a folder is only moved), and \<open>CircularReference\<close> in all
  other cases.
\<close>

theorem move_under_descendant_fails:
  assumes "reachable d"
    and "parseIntStr idParam = Some F"
    and "parseInt parentId = Some D"
    and "(F, D) \<in> (parentRel (folders d))\<^sup>+"
  shows "updateFolder d userId idParam name parentId =
           Some (Inl (case verifyFolderOwnership d userId idParam of
                        Inl e \<Rightarrow> e
                      | Inr folder \<Rightarrow>
                          (case validateName name of
                             Inl e \<Rightarrow> e
                           | Inr nm \<Rightarrow> CircularReference)), d)
         \<and> (\<exists>folder. findFolder (folders d) F = Some folder
               \<and> verifyFolderOwnership d userId idParam =
                   (if folder_ownerId folder \<noteq> userId then Inl FolderForbidden else Inr folder))"
proof -
  have c: "consistent d" using assms(1) by (rule reachable_consistent)
  from same_owner_below [OF c assms(4)] obtain folder g where
    fo: "findFolder (folders d) F = Some folder"
    and g: "findFolder (folders d) D = Some g"
    and og: "folder_ownerId folder = folder_ownerId g" by auto
  have fm: "folder \<in> set (folders d)" "folder_id folder = F"
    using findFolder_SomeD [OF fo] by auto
  then have "1 \<le> F \<and> F \<le> 2147483647" using consistent_ids [OF c] by blast
  then have pf: "prismaInt (parseIntStr idParam) = Some F"
    using assms(2) by (simp add: prismaInt_def)
  have ver: "verifyFolderOwnership d userId idParam =
               (if folder_ownerId folder \<noteq> userId then Inl FolderForbidden else Inr folder)"
    using pf fo by (simp add: verifyFolderOwnership_def)
  have "updateFolder d userId idParam name parentId =
           Some (Inl (case verifyFolderOwnership d userId idParam of
                        Inl e \<Rightarrow> e
                      | Inr folder \<Rightarrow>
                          (case validateName name of
                             Inl e \<Rightarrow> e
                           | Inr nm \<Rightarrow> CircularReference)), d)"
  proof (cases "folder_ownerId folder \<noteq> userId")
    case True
    then show ?thesis using ver by (simp add: updateFolder_def)
  next
    case False
    then have v: "verifyFolderOwnership d userId idParam = Inr folder" using ver by simp
    show ?thesis
    proof (cases "validateName name")
      case (Inl e)
      then show ?thesis using v pf by (simp add: updateFolder_def)
    next
      case (Inr nm)
      have go: "folder_ownerId g = userId" using og False by simp
      have "D \<noteq> F"
        using assms(4) consistent_acyclic [OF c] by (auto simp: acyclic_def)
      then have ns: "parseInt parentId \<noteq> Some F" using assms(3) by simp
      have "g \<in> set (folders d)" "folder_id g = D" using findFolder_SomeD [OF g] by auto
      then have "1 \<le> D \<and> D \<le> 2147483647" using consistent_ids [OF c] by blast
      then have pi: "prismaInt (parseInt parentId) = Some D"
        using assms(3) by (simp add: prismaInt_def)
      have t: "F \<in> folder_id ` set (folders d)" using fm by blast
      have "(F, D) \<in> (parentRel (folders d))\<^sup>*" using assms(4) by (rule trancl_into_rtrancl)
      then have cc: "checkCircularReference (folders d) (Some D) F = Some True"
        using checkCircularReference_wf [OF consistent_wf [OF c] consistent_zero [OF c] t, of D]
        by simp
      show ?thesis
        using v Inr pf parseInt_SomeD [OF assms(3)] ns pi g go cc
        by (simp add: updateFolder_def)
    qed
  qed
  then show ?thesis using fo ver by simp
qed

text \<open>
  \<^verbatim>\<open>Docs\<close> of the example moved by its owner under \<^verbatim>\<open>2024\<close>, which is inside it, in a
  request that carries the name.
\<close>

theorem move_under_descendant_fails_witness:
  "reachable exDb \<and> parseIntStr ''1'' = Some 1 \<and> parseInt (JNum 2) = Some 2
   \<and> (1, 2) \<in> (parentRel (folders exDb))\<^sup>+
   \<and> updateFolder exDb 1 ''1'' (JStr ''Docs'') (JNum 2) = Some (Inl CircularReference, exDb)"
proof -
  have h2: "parseIntStr ''1'' = Some 1" by code_simp
  have h3: "parseInt (JNum 2) = Some 2" by simp
  have "parentOf (folders exDb) 2 = Some 1" by code_simp
  then have h4: "(1, 2) \<in> (parentRel (folders exDb))\<^sup>+"
    by (intro r_into_trancl) (simp add: parentRel_iff)
  have h5: "verifyFolderOwnership exDb 1 ''1'' = Inr exDocs" by code_simp
  have h6: "validateName (JStr ''Docs'') = Inr ''Docs''" by code_simp
  show ?thesis
    using move_under_descendant_fails [OF reachable_exDb h2 h3 h4, of 1 "JStr ''Docs''"]
      reachable_exDb h2 h3 h4 h5 h6
    by simp
qed

text \<open>
  Claim C4 as stated has every such move fail with \<open>CircularReference\<close>; the move
  of \<^verbatim>\<open>Docs\<close> under \<^verbatim>\<open>2024\<close>, which is inside it, in a request that carries the new
  parent alone is answered with \<open>NameRequired\<close>.
\<close>

theorem move_without_name_counterexample:
  "parentOf (folders exDb) 2 = Some 1
   \<and> updateFolder exDb 1 ''1'' JUndefined (JNum 2) = Some (Inl NameRequired, exDb)"
  by code_simp

section \<open>A file asked for through a share link\<close>

lemma find_SomeD: "find P xs = Some x \<Longrightarrow> x \<in> set xs \<and> P x"
  by (induction xs) (auto split: if_splits)

text \<open>
  Claim C3: in a state the routes can bring about, a request with the token of a
  link that has not expired, for a file that exists, is served when the folder of
  the file is the shared folder or has it among its ancestors, and is answered
  403 otherwise, also for a file in no folder.
\<close>

theorem shared_file_within_subtree:
  assumes "reachable d"
    and "findLinkByToken (shareLinks d) token = Some l"
    and "now \<le> link_expiresAt l"
    and "prismaInt (parseIntStr fileId) = Some i"
    and "findFile (files d) i = Some x"
  shows "getSharedFile d now token fileId =
           Some (if \<exists>c. file_folderId x = Some c
                        \<and> (link_folderId l, c) \<in> (parentRel (folders d))\<^sup>*
                 then Inr x else Inl NotInSharedFolder)"
proof -
  have c: "consistent d" using assms(1) by (rule reachable_consistent)
  have "l \<in> set (shareLinks d)"
    using assms(2) find_SomeD unfolding findLinkByToken_def by fastforce
  then have t: "link_folderId l \<in> folder_id ` set (folders d)" by (rule consistent_link [OF c])
  have rs: "resolveShare d now token = Inr l" using assms(2,3) by (simp add: resolveShare_def)
  show ?thesis
  proof (cases "file_folderId x")
    case None
    moreover have "climbToShared (folders d) None (link_folderId l) = Some False"
      by (subst climbToShared.simps) simp
    ultimately show ?thesis using rs assms(4,5) by (simp add: getSharedFile_def)
  next
    case (Some c')
    have "climbToShared (folders d) (Some c') (link_folderId l)
            = Some ((link_folderId l, c') \<in> (parentRel (folders d))\<^sup>*)"
      by (rule climbToShared_wf [OF consistent_wf [OF c] consistent_zero [OF c] t])
    then show ?thesis using rs assms(4,5) Some by (simp add: getSharedFile_def)
  qed
qed

text \<open>
  The link of the example is on folder 2: file 1, in folder 2, is served; file 2,
  in folder 3, is not.
\<close>

theorem shared_file_within_subtree_witness:
  "reachable exDb \<and> findLinkByToken (shareLinks exDb) ''tok'' = Some exLink
   \<and> (1000 :: int) \<le> link_expiresAt exLink
   \<and> prismaInt (parseIntStr ''1'') = Some 1 \<and> findFile (files exDb) 1 = Some exReport
   \<and> prismaInt (parseIntStr ''2'') = Some 2 \<and> findFile (files exDb) 2 = Some exCat
   \<and> getSharedFile exDb 1000 ''tok'' ''1'' = Some (Inr exReport)
   \<and> getSharedFile exDb 1000 ''tok'' ''2'' = Some (Inl NotInSharedFolder)"
proof -
  have h2: "findLinkByToken (shareLinks exDb) ''tok'' = Some exLink" by code_simp
  have h3: "(1000 :: int) \<le> link_expiresAt exLink" by (simp add: exLink_def)
  have h4: "prismaInt (parseIntStr ''1'') = Some 1" by code_simp
  have h5: "findFile (files exDb) 1 = Some exReport" by code_simp
  have h4': "prismaInt (parseIntStr ''2'') = Some 2" by code_simp
  have h5': "findFile (files exDb) 2 = Some exCat" by code_simp
  have in1: "\<exists>c. file_folderId exReport = Some c
        \<and> (link_folderId exLink, c) \<in> (parentRel (folders exDb))\<^sup>*"
    by (simp add: exReport_def exLink_def)
  have p3: "parentOf (folders exDb) 3 = None" by code_simp
  have "(2, 3) \<notin> (parentRel (folders exDb))\<^sup>*"
  proof
    assume "(2, 3) \<in> (parentRel (folders exDb))\<^sup>*"
    from above_root [OF p3 this] show False by simp
  qed
  then have out2: "\<not> (\<exists>c. file_folderId exCat = Some c
        \<and> (link_folderId exLink, c) \<in> (parentRel (folders exDb))\<^sup>*)"
    by (simp add: exCat_def exLink_def)
  show ?thesis
    using shared_file_within_subtree [OF reachable_exDb h2 h3 h4 h5]
      shared_file_within_subtree [OF reachable_exDb h2 h3 h4' h5']
      reachable_exDb h2 h3 h4 h5 h4' h5' in1 out2
    by simp
qed

section \<open>Deleting a folder without \<^verbatim>\<open>force\<close>\<close>

lemma subtree_leaf:
  assumes "\<And>f. f \<in> set fs \<Longrightarrow> folder_parentId f \<noteq> Some i"
  shows "subtree fs i = {i}"
proof -
  have "\<And>x. (i, x) \<in> (parentRel fs)\<^sup>* \<Longrightarrow> x = i"
  proof -
    fix x assume "(i, x) \<in> (parentRel fs)\<^sup>*"
    then show "x = i"
    proof (cases rule: converse_rtranclE)
      case base
      then show ?thesis by simp
    next
      case (step y)
      from parentRel_rowD [OF step(1)] assms show ?thesis by blast
    qed
  qed
  then show ?thesis unfolding subtree_def by auto
qed

text \<open>
  Claim C6: in a state the routes can bring about, the owner's request to delete a
  folder without \<^verbatim>\<open>force=true\<close> is answered \<open>NotEmpty\<close> with the numbers of the
  folders and of the files directly in it, the database unchanged, when one of the
  two is not zero; when both are zero it succeeds, and takes the folder and the
  share links on it out of the tables.
\<close>

theorem deleteFolder_without_force:
  assumes "reachable d"
    and "verifyFolderOwnership d userId idParam = Inr folder"
    and "force \<noteq> JStr ''true''"
  shows "deleteFolder fuel d userId idParam force =
           (let c = length (filter (\<lambda>f. folder_parentId f = Some (folder_id folder)) (folders d));
                k = length (filter (\<lambda>x. file_folderId x = Some (folder_id folder)) (files d))
            in if 0 < c \<or> 0 < k then Some (Inl (NotEmpty c k), d)
               else Some (Inr DeletedEmpty,
                          d\<lparr>folders := filter (\<lambda>f. folder_id f \<noteq> folder_id folder) (folders d),
                            shareLinks := filter (\<lambda>l. link_folderId l \<noteq> folder_id folder)
                                            (shareLinks d)\<rparr>))"
proof -
  have c: "consistent d" using assms(1) by (rule reachable_consistent)
  note v = verify_InrD [OF assms(2)]
  let ?F = "folder_id folder"
  have own_f: "\<And>f. f \<in> set (folders d) \<Longrightarrow> folder_parentId f = Some ?F
                \<Longrightarrow> folder_ownerId f = userId"
  proof -
    fix f assume f: "f \<in> set (folders d)" "folder_parentId f = Some ?F"
    from consistent_parent [OF c f] obtain g where
      g: "g \<in> set (folders d)" "folder_id g = ?F" "folder_ownerId g = folder_ownerId f" by blast
    have "findFolder (folders d) (folder_id g) = Some g"
      using consistent_distinct [OF c] g(1) by (rule findFolder_distinct)
    then have "g = folder" using v g(2) by (metis option.inject)
    then show "folder_ownerId f = userId" using g(3) v by simp
  qed
  have own_x: "\<And>x. x \<in> set (files d) \<Longrightarrow> file_folderId x = Some ?F
                \<Longrightarrow> file_ownerId x = userId"
  proof -
    fix x assume x: "x \<in> set (files d)" "file_folderId x = Some ?F"
    from consistent_file [OF c x] obtain g where
      g: "g \<in> set (folders d)" "folder_id g = ?F" "folder_ownerId g = file_ownerId x" by blast
    have "findFolder (folders d) (folder_id g) = Some g"
      using consistent_distinct [OF c] g(1) by (rule findFolder_distinct)
    then have "g = folder" using v g(2) by (metis option.inject)
    then show "file_ownerId x = userId" using g(3) v by simp
  qed
  have cf: "filter (\<lambda>f. folder_parentId f = Some ?F \<and> folder_ownerId f = userId) (folders d)
          = filter (\<lambda>f. folder_parentId f = Some ?F) (folders d)"
    using own_f by (intro filter_cong) auto
  have ff: "filter (\<lambda>x. file_folderId x = Some ?F \<and> file_ownerId x = userId) (files d)
          = filter (\<lambda>x. file_folderId x = Some ?F) (files d)"
    using own_x by (intro filter_cong) auto
  let ?c = "length (filter (\<lambda>f. folder_parentId f = Some ?F) (folders d))"
  let ?k = "length (filter (\<lambda>x. file_folderId x = Some ?F) (files d))"
  show ?thesis
  proof (cases "0 < ?c \<or> 0 < ?k")
    case True
    then show ?thesis using assms(2,3) v cf ff
      unfolding deleteFolder_def Let_def by simp
  next
    case False
    then have nochild: "\<And>f. f \<in> set (folders d) \<Longrightarrow> folder_parentId f \<noteq> Some ?F"
      and nofile: "\<And>x. x \<in> set (files d) \<Longrightarrow> file_folderId x \<noteq> Some ?F"
      by (auto simp: filter_empty_conv)
    have st: "subtree (folders d) ?F = {?F}" using nochild by (rule subtree_leaf)
    have fl: "filter (\<lambda>x. case file_folderId x of None \<Rightarrow> True | Some c \<Rightarrow> c \<notin> {?F}) (files d)
               = files d"
    proof (rule filter_True, rule ballI)
      fix x assume "x \<in> set (files d)"
      from nofile [OF this]
      show "case file_folderId x of None \<Rightarrow> True | Some c \<Rightarrow> c \<notin> {?F}"
        by (cases "file_folderId x") auto
    qed
    have "prismaFolderDelete d ?F = (Inr (), withoutFolders d {?F})"
      using prismaFolderDelete_eq [OF consistent_acyclic [OF c]] v st by simp
    moreover have "withoutFolders d {?F} =
        d\<lparr>folders := filter (\<lambda>f. folder_id f \<noteq> ?F) (folders d),
          shareLinks := filter (\<lambda>l. link_folderId l \<noteq> ?F) (shareLinks d)\<rparr>"
      unfolding withoutFolders_def fl by simp
    ultimately show ?thesis using assms(2,3) v cf ff False
      unfolding deleteFolder_def Let_def by simp
  qed
qed

text \<open>
  In the example folder 1 holds a folder, folder 3 a file, and folder 4 nothing;
  no share link is on folder 4.
\<close>

theorem deleteFolder_without_force_witness:
  "reachable exDb \<and> JUndefined \<noteq> JStr ''true''
   \<and> verifyFolderOwnership exDb 1 ''1'' = Inr exDocs
   \<and> verifyFolderOwnership exDb 1 ''3'' = Inr exPics
   \<and> verifyFolderOwnership exDb 1 ''4'' = Inr exTmp
   \<and> deleteFolder 0 exDb 1 ''1'' JUndefined = Some (Inl (NotEmpty 1 0), exDb)
   \<and> deleteFolder 0 exDb 1 ''3'' JUndefined = Some (Inl (NotEmpty 0 1), exDb)
   \<and> deleteFolder 0 exDb 1 ''4'' JUndefined
        = Some (Inr DeletedEmpty, exDb\<lparr>folders := [exDocs, ex2024, exPics]\<rparr>)"
proof -
  have h3: "JUndefined \<noteq> JStr ''true''" by simp
  have v1: "verifyFolderOwnership exDb 1 ''1'' = Inr exDocs" by code_simp
  have v3: "verifyFolderOwnership exDb 1 ''3'' = Inr exPics" by code_simp
  have v4: "verifyFolderOwnership exDb 1 ''4'' = Inr exTmp" by code_simp
  have e1: "(let c = length (filter (\<lambda>f. folder_parentId f = Some (folder_id exDocs)) (folders exDb));
                k = length (filter (\<lambda>x. file_folderId x = Some (folder_id exDocs)) (files exDb))
            in if 0 < c \<or> 0 < k then Some (Inl (NotEmpty c k), exDb)
               else Some (Inr DeletedEmpty,
                          exDb\<lparr>folders := filter (\<lambda>f. folder_id f \<noteq> folder_id exDocs) (folders exDb),
                            shareLinks := filter (\<lambda>l. link_folderId l \<noteq> folder_id exDocs)
                                            (shareLinks exDb)\<rparr>))
            = Some (Inl (NotEmpty 1 0), exDb)"
    by code_simp
  have e3: "(let c = length (filter (\<lambda>f. folder_parentId f = Some (folder_id exPics)) (folders exDb));
                k = length (filter (\<lambda>x. file_folderId x = Some (folder_id exPics)) (files exDb))
            in if 0 < c \<or> 0 < k then Some (Inl (NotEmpty c k), exDb)
               else Some (Inr DeletedEmpty,
                          exDb\<lparr>folders := filter (\<lambda>f. folder_id f \<noteq> folder_id exPics) (folders exDb),
                            shareLinks := filter (\<lambda>l. link_folderId l \<noteq> folder_id exPics)
                                            (shareLinks exDb)\<rparr>))
            = Some (Inl (NotEmpty 0 1), exDb)"
    by code_simp
  have e4: "(let c = length (filter (\<lambda>f. folder_parentId f = Some (folder_id exTmp)) (folders exDb));
                k = length (filter (\<lambda>x. file_folderId x = Some (folder_id exTmp)) (files exDb))
            in if 0 < c \<or> 0 < k then Some (Inl (NotEmpty c k), exDb)
               else Some (Inr DeletedEmpty,
                          exDb\<lparr>folders := filter (\<lambda>f. folder_id f \<noteq> folder_id exTmp) (folders exDb),
                            shareLinks := filter (\<lambda>l. link_folderId l \<noteq> folder_id exTmp)
                                            (shareLinks exDb)\<rparr>))
            = Some (Inr DeletedEmpty, exDb\<lparr>folders := [exDocs, ex2024, exPics]\<rparr>)"
    by code_simp
  show ?thesis
    using deleteFolder_without_force [OF reachable_exDb v1 h3, of 0]
      deleteFolder_without_force [OF reachable_exDb v3 h3, of 0]
      deleteFolder_without_force [OF reachable_exDb v4 h3, of 0]
      reachable_exDb h3 v1 v3 v4
    unfolding e1 e3 e4 by simp
qed

section \<open>Subtrees\<close>

















section \<open>The recursive deletion\<close>











end
